theory Spec2Isabelle
  imports Main "HOL-Library.AList" "HOL-Library.Multiset"
begin

section \<open>Data model\<close>

text \<open>
  A JavaScript object whose values are strings (a dependency field of a manifest, the
  \<open>packages\<close> argument, the \<open>allVersions\<close> accumulator, the \<open>dist-tags\<close> of a registry
  document) is an association list in \<open>Object.keys\<close> order. A property read is
  \<open>map_of\<close>; a property write is \<open>AList.update\<close>, which keeps the position of a key
  that is already there and appends a new one, as a JavaScript object does.
\<close>

type_synonym dict = "(string \<times> string) list"

text \<open>
  The source tests values for truthiness (\<open>if (x[k])\<close>, \<open>!x[k]\<close>): a missing key and an
  empty string are both falsy.
\<close>

fun truthy :: "string option \<Rightarrow> string option" where
  "truthy None = None"
| "truthy (Some s) = (if s = [] then None else Some s)"

text \<open>The manifest of one published version, and the registry document of a package.\<close>

record version_json =
  peerDependencies :: "dict option"

record npm_package_json =
  npm_name :: string
  npm_dist_tags :: "dict option"
  npm_versions :: "(string \<times> version_json) list"

text \<open>
  The packages \<open>semver\<close> and \<open>semver-intersect\<close> are not part of the repository; the
  functions the source calls are taken as a parameter. A result \<open>None\<close> of
  \<open>semver_maxSatisfying\<close> is JavaScript's \<open>null\<close>; for the four functions that can throw
  (on a malformed range or version, or on ranges that do not intersect) \<open>None\<close> is the
  exception. \<open>semverIntersect_parseRange\<close> is the \<open>version\<close> field of the parsed range.
\<close>

record semver_lib =
  semver_validRange :: "string \<Rightarrow> bool"
  semver_valid :: "string \<Rightarrow> bool"
  semver_maxSatisfying :: "string list \<Rightarrow> string \<Rightarrow> string option"
  semver_intersects :: "string \<Rightarrow> string \<Rightarrow> bool option"
  semver_lt :: "string \<Rightarrow> string \<Rightarrow> bool option"
  semverIntersect_intersect :: "string \<Rightarrow> string \<Rightarrow> string option"
  semverIntersect_parseRange :: "string \<Rightarrow> string option"

text \<open>
  Every \<open>throw\<close> of the source is a constructor; \<open>LibraryThrow\<close> is an exception raised
  inside a library call or by a property read on \<open>undefined\<close>.
\<close>

datatype error =
    RegistryError string
  | InvalidSelectorError string
  | NoSatisfyingVersionError string string
  | DowngradeError string string string
  | ConflictError string string string
  | LibraryThrow
  | NoPackageJson
  | UnparsablePackageJson

section \<open>Version selection\<close>

text \<open>\<open>version.match(/^[~^]/)\<close>: the leading operator character, if any.\<close>

fun maybeOperator :: "string \<Rightarrow> char option" where
  "maybeOperator [] = None"
| "maybeOperator (c # cs) = (if c = CHR ''~'' \<or> c = CHR ''^'' then Some c else None)"

definition loosePrefix :: "bool \<Rightarrow> string" where
  "loosePrefix loose = (if loose then ''~'' else '''')"

definition widen :: "semver_lib \<Rightarrow> string \<Rightarrow> bool \<Rightarrow> string" where
  "widen L version loose =
     (if semver_valid L version \<and> loose then ''~'' @ version else version)"

definition distTag :: "npm_package_json \<Rightarrow> string \<Rightarrow> string option" where
  "distTag json version =
     (case npm_dist_tags json of
        None \<Rightarrow> None
      | Some distTags \<Rightarrow> truthy (map_of distTags version))"

definition getVersionFromNpmPackage ::
  "semver_lib \<Rightarrow> npm_package_json \<Rightarrow> string \<Rightarrow> bool \<Rightarrow> error + string" where
  "getVersionFromNpmPackage L json version loose =
     (case distTag json version of
        Some tagged \<Rightarrow> Inr (loosePrefix loose @ tagged)
      | None \<Rightarrow>
          if \<not> semver_validRange L version then Inl (InvalidSelectorError version)
          else
            let version' = widen L version loose;
                packageVersions = map fst (npm_versions json)
            in (case truthy (semver_maxSatisfying L packageVersions version') of
                  None \<Rightarrow> Inl (NoSatisfyingVersionError version' (npm_name json))
                | Some maybeMatch \<Rightarrow>
                    if version' = ''*'' then Inr maybeMatch
                    else (case maybeOperator version' of
                            Some op \<Rightarrow> Inr (op # maybeMatch)
                          | None \<Rightarrow> Inr (loosePrefix loose @ maybeMatch))))"

section \<open>Resolution engine\<close>

text \<open>
  The parsed root manifest, as far as the engine reads it: its fields that hold a
  dependency object. \<open>manifestEdges\<close> is the first \<open>mergeMap\<close>: the entries of the four
  dependency fields, in field order.
\<close>

type_synonym package_json = "(string \<times> dict) list"

definition kPackageJsonDependencyFields :: "string list" where
  "kPackageJsonDependencyFields =
     [''dependencies'', ''devDependencies'', ''peerDependencies'', ''optionalDependencies'']"

definition manifestEdges :: "package_json \<Rightarrow> (string \<times> string) list" where
  "manifestEdges packageJson =
     concat (map (\<lambda>field. case map_of packageJson field of None \<Rightarrow> [] | Some deps \<Rightarrow> deps)
                 kPackageJsonDependencyFields)"

datatype 'a outcome = Done 'a | Failed error | OutOfFuel

text \<open>
  The second \<open>mergeMap\<close>: an edge is skipped, or it narrows the accumulator without a
  fetch, or it asks for the registry document (with the selector \<open>packages[depName]\<close>).
\<close>

datatype edge_choice = Skip | Narrowed dict | Fetch string

definition selectEdge ::
  "semver_lib \<Rightarrow> dict \<Rightarrow> dict \<Rightarrow> string \<Rightarrow> string \<Rightarrow> error + edge_choice" where
  "selectEdge L packages allVersions depName depVersion =
     (case truthy (map_of packages depName) of
        None \<Rightarrow> Inr Skip
      | Some version \<Rightarrow>
          if version = depVersion then Inr Skip
          else (case truthy (map_of allVersions depName) of
                  None \<Rightarrow> Inr (Fetch version)
                | Some current \<Rightarrow>
                    (case semver_intersects L current depVersion of
                       None \<Rightarrow> Inl LibraryThrow
                     | Some False \<Rightarrow> Inr (Fetch version)
                     | Some True \<Rightarrow>
                         (case semverIntersect_intersect L current depVersion of
                            None \<Rightarrow> Inl LibraryThrow
                          | Some narrowed \<Rightarrow>
                              Inr (Narrowed (AList.update depName narrowed allVersions))))))"

text \<open>
  The third \<open>mergeMap\<close>, up to its recursive call: the edge is dropped, or the update is
  recorded and the peer dependencies of the matched version are the next \<open>packages\<close>.
\<close>

datatype recorded = Dropped | Recorded dict dict

definition peerDependenciesOf :: "version_json \<Rightarrow> dict" where
  "peerDependenciesOf innerNpmPackageJson =
     (case peerDependencies innerNpmPackageJson of None \<Rightarrow> [] | Some deps \<Rightarrow> deps)"

definition mergeVersion ::
  "semver_lib \<Rightarrow> dict \<Rightarrow> string \<Rightarrow> string \<Rightarrow> error + dict" where
  "mergeVersion L allVersions depName updateVersion =
     (case truthy (map_of allVersions depName) of
        Some current \<Rightarrow>
          (case semver_intersects L current updateVersion of
             None \<Rightarrow> Inl LibraryThrow
           | Some False \<Rightarrow> Inl (ConflictError depName updateVersion current)
           | Some True \<Rightarrow>
               (case semverIntersect_intersect L current updateVersion of
                  None \<Rightarrow> Inl LibraryThrow
                | Some merged \<Rightarrow> Inr (AList.update depName merged allVersions)))
      | None \<Rightarrow> Inr (AList.update depName updateVersion allVersions))"

definition isDowngrade :: "semver_lib \<Rightarrow> string \<Rightarrow> string \<Rightarrow> bool option" where
  "isDowngrade L updateVersion depVersion =
     (case semverIntersect_parseRange L updateVersion of
        None \<Rightarrow> None
      | Some u \<Rightarrow>
          (case semverIntersect_parseRange L depVersion of
             None \<Rightarrow> None
           | Some d \<Rightarrow> semver_lt L u d))"

definition recordUpdate ::
  "semver_lib \<Rightarrow> bool \<Rightarrow> dict \<Rightarrow> string \<Rightarrow> string \<Rightarrow> string \<Rightarrow> npm_package_json
     \<Rightarrow> error + recorded" where
  "recordUpdate L loose allVersions version depName depVersion npmPackageJson =
     (case getVersionFromNpmPackage L npmPackageJson version loose of
        Inl e \<Rightarrow> Inl e
      | Inr updateVersion \<Rightarrow>
          (case truthy (semver_maxSatisfying L (map fst (npm_versions npmPackageJson))
                          updateVersion) of
             None \<Rightarrow> Inr Dropped
           | Some match \<Rightarrow>
               (case isDowngrade L updateVersion depVersion of
                  None \<Rightarrow> Inl LibraryThrow
                | Some True \<Rightarrow> Inl (DowngradeError depName depVersion updateVersion)
                | Some False \<Rightarrow>
                    (case map_of (npm_versions npmPackageJson) match of
                       None \<Rightarrow> Inl LibraryThrow
                     | Some innerNpmPackageJson \<Rightarrow>
                         (case mergeVersion L allVersions depName updateVersion of
                            Inl e \<Rightarrow> Inl e
                          | Inr allVersions' \<Rightarrow>
                              Inr (Recorded allVersions'
                                     (peerDependenciesOf innerNpmPackageJson)))))))"

text \<open>
  The registry is a snapshot: a package name gives the document its fetch delivers, or
  the error of the fetch (the client below delivers one outcome per package name for the
  whole process). \<open>getRecursiveVersions\<close> is the walk as it runs when the documents are
  in the cache already, so that every observable emits at once on subscription: an edge
  goes through the three stages, nested calls included, before the next edge starts;
  \<open>recurse\<close> is the recursive call on the same manifest. An exception thrown in any
  stage ends the whole walk. The order in which edges run when documents are still in
  flight is the subject of the section on interleavings.
\<close>

type_synonym registry = "string \<Rightarrow> string + npm_package_json"

definition resolveEdge ::
  "semver_lib \<Rightarrow> registry \<Rightarrow> bool \<Rightarrow> (dict \<Rightarrow> dict \<Rightarrow> dict outcome) \<Rightarrow> dict \<Rightarrow> dict
     \<Rightarrow> string \<times> string \<Rightarrow> dict outcome" where
  "resolveEdge L reg loose recurse packages allVersions edge =
     (case edge of (depName, depVersion) \<Rightarrow>
        (case selectEdge L packages allVersions depName depVersion of
           Inl e \<Rightarrow> Failed e
         | Inr Skip \<Rightarrow> Done allVersions
         | Inr (Narrowed allVersions') \<Rightarrow> Done allVersions'
         | Inr (Fetch version) \<Rightarrow>
             (case reg depName of
                Inl err \<Rightarrow> Failed (RegistryError err)
              | Inr npmPackageJson \<Rightarrow>
                  (case recordUpdate L loose allVersions version depName depVersion
                          npmPackageJson of
                     Inl e \<Rightarrow> Failed e
                   | Inr Dropped \<Rightarrow> Done allVersions
                   | Inr (Recorded allVersions' dependencies) \<Rightarrow>
                       recurse dependencies allVersions'))))"

fun walkEdges ::
  "(dict \<Rightarrow> string \<times> string \<Rightarrow> dict outcome) \<Rightarrow> (string \<times> string) list \<Rightarrow> dict
     \<Rightarrow> dict outcome" where
  "walkEdges resolve [] allVersions = Done allVersions"
| "walkEdges resolve (edge # edges) allVersions =
     (case resolve allVersions edge of
        Done allVersions' \<Rightarrow> walkEdges resolve edges allVersions'
      | Failed e \<Rightarrow> Failed e
      | OutOfFuel \<Rightarrow> OutOfFuel)"

text \<open>
  The recursion of the source has no bound of its own, so the model carries fuel: the
  number of nested calls allowed. \<open>OutOfFuel\<close> is a walk that needs more.
\<close>

primrec getRecursiveVersions ::
  "semver_lib \<Rightarrow> registry \<Rightarrow> bool \<Rightarrow> package_json \<Rightarrow> nat \<Rightarrow> dict \<Rightarrow> dict \<Rightarrow> dict outcome" where
  "getRecursiveVersions L reg loose packageJson 0 packages allVersions = OutOfFuel"
| "getRecursiveVersions L reg loose packageJson (Suc fuel) packages allVersions =
     walkEdges
       (resolveEdge L reg loose (getRecursiveVersions L reg loose packageJson fuel) packages)
       (manifestEdges packageJson) allVersions"

section \<open>Interleavings\<close>

text \<open>
  With registry documents in flight, the stages of different edges interleave: the
  second stage of every edge of a call runs on subscription, the third stage of an edge
  runs when its document arrives. Each stage runs to its end on its own, reading and
  writing the shared accumulator. A configuration is the accumulator with the work that
  is left: edges that have not passed the second stage (with the \<open>packages\<close> of their
  call) and edges waiting for their document (with their selector). A step runs one
  stage of any one of them; every order in which the source can run the stages is a
  sequence of such steps.
\<close>

datatype work = Edge dict string string | Task string string string

datatype config = Running dict "work list" | Stopped error

definition subscribeEdges :: "package_json \<Rightarrow> dict \<Rightarrow> work list" where
  "subscribeEdges packageJson packages =
     map (\<lambda>(depName, depVersion). Edge packages depName depVersion)
         (manifestEdges packageJson)"

inductive step :: "semver_lib \<Rightarrow> registry \<Rightarrow> bool \<Rightarrow> package_json \<Rightarrow> config \<Rightarrow> config \<Rightarrow> bool"
  for L :: semver_lib and reg :: registry and loose :: bool and packageJson :: package_json
  where
    selectThrows:
      "selectEdge L packages allVersions depName depVersion = Inl e
       \<Longrightarrow> step L reg loose packageJson
             (Running allVersions (ws1 @ Edge packages depName depVersion # ws2))
             (Stopped e)"
  | skipped:
      "selectEdge L packages allVersions depName depVersion = Inr Skip
       \<Longrightarrow> step L reg loose packageJson
             (Running allVersions (ws1 @ Edge packages depName depVersion # ws2))
             (Running allVersions (ws1 @ ws2))"
  | narrowed:
      "selectEdge L packages allVersions depName depVersion = Inr (Narrowed allVersions')
       \<Longrightarrow> step L reg loose packageJson
             (Running allVersions (ws1 @ Edge packages depName depVersion # ws2))
             (Running allVersions' (ws1 @ ws2))"
  | fetching:
      "selectEdge L packages allVersions depName depVersion = Inr (Fetch version)
       \<Longrightarrow> step L reg loose packageJson
             (Running allVersions (ws1 @ Edge packages depName depVersion # ws2))
             (Running allVersions (ws1 @ Task version depName depVersion # ws2))"
  | fetchFails:
      "reg depName = Inl err
       \<Longrightarrow> step L reg loose packageJson
             (Running allVersions (ws1 @ Task version depName depVersion # ws2))
             (Stopped (RegistryError err))"
  | recordThrows:
      "reg depName = Inr npmPackageJson
       \<Longrightarrow> recordUpdate L loose allVersions version depName depVersion npmPackageJson = Inl e
       \<Longrightarrow> step L reg loose packageJson
             (Running allVersions (ws1 @ Task version depName depVersion # ws2))
             (Stopped e)"
  | dropped:
      "reg depName = Inr npmPackageJson
       \<Longrightarrow> recordUpdate L loose allVersions version depName depVersion npmPackageJson
             = Inr Dropped
       \<Longrightarrow> step L reg loose packageJson
             (Running allVersions (ws1 @ Task version depName depVersion # ws2))
             (Running allVersions (ws1 @ ws2))"
  | recorded:
      "reg depName = Inr npmPackageJson
       \<Longrightarrow> recordUpdate L loose allVersions version depName depVersion npmPackageJson
             = Inr (Recorded allVersions' dependencies)
       \<Longrightarrow> step L reg loose packageJson
             (Running allVersions (ws1 @ Task version depName depVersion # ws2))
             (Running allVersions' (ws1 @ subscribeEdges packageJson dependencies @ ws2))"

text \<open>The edge of a piece of work, and work all of whose edges are edges of the manifest.\<close>

fun workEdge :: "work \<Rightarrow> string \<times> string" where
  "workEdge (Edge packages depName depVersion) = (depName, depVersion)"
| "workEdge (Task version depName depVersion) = (depName, depVersion)"

definition manifestWork :: "package_json \<Rightarrow> work list \<Rightarrow> bool" where
  "manifestWork packageJson ws \<longleftrightarrow>
     list_all (\<lambda>w. workEdge w \<in> set (manifestEdges packageJson)) ws"

section \<open>Registry client\<close>

text \<open>
  The module-level cache maps a request URL to the observable of its request. A
  \<open>ReplaySubject(1)\<close> is pending until its first \<open>next\<close> (followed at once by
  \<open>complete\<close>) or \<open>error\<close>; after that it is stopped, ignores further calls and replays
  the same outcome to every subscriber. The state lists the subjects created so far (a
  handle is an index), and the URLs handed to \<open>https.request\<close>, in order.
\<close>

datatype 'j subject = Pending | Emitted 'j | Errored string

record 'j client_state =
  npmPackageJsonCache :: "(string \<times> nat) list"
  subjects :: "'j subject list"
  requests :: "string list"




text \<open>\<open>subject.next(json); subject.complete()\<close> and \<open>subject.error(err)\<close>.\<close>

definition settle :: "nat \<Rightarrow> 'j subject \<Rightarrow> 'j client_state \<Rightarrow> 'j client_state" where
  "settle request result st =
     (if request < length (subjects st) \<and> subjects st ! request = Pending
      then st\<lparr>subjects := (subjects st)[request := result]\<rparr>
      else st)"








section \<open>The update rule\<close>





definition supportedPackagesMap :: "string list \<Rightarrow> string \<Rightarrow> dict" where
  "supportedPackagesMap supportedPackages version =
     fold (\<lambda>name packages. AList.update name version packages) supportedPackages []"



section \<open>A fragment of semver, for evaluating the engine on concrete registries\<close>

text \<open>
  An executable reading of the library functions on the fragment of the semver syntax
  that the evaluated scenarios use: versions \<open>MAJOR.MINOR.PATCH\<close> of decimal numbers
  without leading zeros, and the ranges \<open>*\<close>, an exact version, \<open>^v\<close> and \<open>~v\<close>. A string
  outside the fragment is reported as invalid, or as an exception where the library
  function throws on invalid input.
\<close>

definition isDigit :: "char \<Rightarrow> bool" where
  "isDigit c \<longleftrightarrow> c \<in> set ''0123456789''"

definition digitValue :: "char \<Rightarrow> nat" where
  "digitValue c = of_char c - 48"

definition numericId :: "string \<Rightarrow> nat option" where
  "numericId s =
     (if s \<noteq> [] \<and> list_all isDigit s \<and> (length s = 1 \<or> hd s \<noteq> CHR ''0'')
      then Some (foldl (\<lambda>n c. 10 * n + digitValue c) 0 s)
      else None)"

fun splitDots :: "string \<Rightarrow> string list" where
  "splitDots [] = [[]]"
| "splitDots (c # cs) =
     (if c = CHR ''.'' then [] # splitDots cs
      else (case splitDots cs of
              [] \<Rightarrow> [[c]]
            | part # parts \<Rightarrow> (c # part) # parts))"

type_synonym ver = "nat \<times> nat \<times> nat"

definition parseVersion :: "string \<Rightarrow> ver option" where
  "parseVersion s =
     (case splitDots s of
        [a, b, c] \<Rightarrow>
          (case (numericId a, numericId b, numericId c) of
             (Some major, Some minor, Some patch) \<Rightarrow> Some (major, minor, patch)
           | _ \<Rightarrow> None)
      | _ \<Rightarrow> None)"

fun verLess :: "ver \<Rightarrow> ver \<Rightarrow> bool" where
  "verLess (a, b, c) (d, e, f) \<longleftrightarrow> a < d \<or> (a = d \<and> (b < e \<or> (b = e \<and> c < f)))"

text \<open>A parsed range keeps the text of its version, which the results are built from.\<close>

datatype frag_range = AnyVersion | Exactly string ver | Caret string ver | Tilde string ver

definition parseFragRange :: "string \<Rightarrow> frag_range option" where
  "parseFragRange s =
     (if s = ''*'' then Some AnyVersion
      else (case s of
              [] \<Rightarrow> None
            | c # cs \<Rightarrow>
                if c = CHR ''^'' then map_option (Caret cs) (parseVersion cs)
                else if c = CHR ''~'' then map_option (Tilde cs) (parseVersion cs)
                else map_option (Exactly s) (parseVersion s)))"

fun caretUpper :: "ver \<Rightarrow> ver" where
  "caretUpper (major, minor, patch) =
     (if 0 < major then (Suc major, 0, 0)
      else if 0 < minor then (0, Suc minor, 0)
      else (0, 0, Suc patch))"

fun tildeUpper :: "ver \<Rightarrow> ver" where
  "tildeUpper (major, minor, patch) = (major, Suc minor, 0)"

fun satisfiesRange :: "ver \<Rightarrow> frag_range \<Rightarrow> bool" where
  "satisfiesRange v AnyVersion = True"
| "satisfiesRange v (Exactly t w) = (v = w)"
| "satisfiesRange v (Caret t w) = (\<not> verLess v w \<and> verLess v (caretUpper w))"
| "satisfiesRange v (Tilde t w) = (\<not> verLess v w \<and> verLess v (tildeUpper w))"

fun lowerBound :: "frag_range \<Rightarrow> ver" where
  "lowerBound AnyVersion = (0, 0, 0)"
| "lowerBound (Exactly t w) = w"
| "lowerBound (Caret t w) = w"
| "lowerBound (Tilde t w) = w"

fun versionText :: "frag_range \<Rightarrow> string option" where
  "versionText AnyVersion = None"
| "versionText (Exactly t w) = Some t"
| "versionText (Caret t w) = Some t"
| "versionText (Tilde t w) = Some t"

definition fragValid :: "string \<Rightarrow> bool" where
  "fragValid s \<longleftrightarrow> parseVersion s \<noteq> None"

definition fragValidRange :: "string \<Rightarrow> bool" where
  "fragValidRange s \<longleftrightarrow> parseFragRange s \<noteq> None"

text \<open>
  \<open>maxSatisfying\<close> keeps the first of the greatest versions that satisfy the range, and
  passes over list elements that are not versions.
\<close>

fun pickMax :: "frag_range \<Rightarrow> string list \<Rightarrow> (string \<times> ver) option \<Rightarrow> (string \<times> ver) option" where
  "pickMax r [] best = best"
| "pickMax r (s # ss) best =
     pickMax r ss
       (case parseVersion s of
          None \<Rightarrow> best
        | Some v \<Rightarrow>
            if satisfiesRange v r
            then (case best of
                    None \<Rightarrow> Some (s, v)
                  | Some (s', v') \<Rightarrow> if verLess v' v then Some (s, v) else best)
            else best)"

definition fragMaxSatisfying :: "string list \<Rightarrow> string \<Rightarrow> string option" where
  "fragMaxSatisfying versions rng =
     (case parseFragRange rng of
        None \<Rightarrow> None
      | Some r \<Rightarrow> map_option fst (pickMax r versions None))"

text \<open>
  Every range of the fragment is an interval that starts at its lower bound, so two
  ranges intersect exactly when the greater lower bound satisfies both.
\<close>

definition higher :: "frag_range \<Rightarrow> frag_range \<Rightarrow> frag_range" where
  "higher r1 r2 = (if verLess (lowerBound r1) (lowerBound r2) then r2 else r1)"

definition rangesMeet :: "frag_range \<Rightarrow> frag_range \<Rightarrow> bool" where
  "rangesMeet r1 r2 \<longleftrightarrow>
     satisfiesRange (lowerBound (higher r1 r2)) r1 \<and>
     satisfiesRange (lowerBound (higher r1 r2)) r2"

definition fragIntersects :: "string \<Rightarrow> string \<Rightarrow> bool option" where
  "fragIntersects range1 range2 =
     (case (parseFragRange range1, parseFragRange range2) of
        (Some r1, Some r2) \<Rightarrow> Some (rangesMeet r1 r2)
      | _ \<Rightarrow> None)"

definition fragLt :: "string \<Rightarrow> string \<Rightarrow> bool option" where
  "fragLt v1 v2 =
     (case (parseVersion v1, parseVersion v2) of
        (Some a, Some b) \<Rightarrow> Some (verLess a b)
      | _ \<Rightarrow> None)"

definition fragParseRange :: "string \<Rightarrow> string option" where
  "fragParseRange rng =
     (case parseFragRange rng of None \<Rightarrow> None | Some r \<Rightarrow> versionText r)"

text \<open>
  \<open>semver-intersect\<close> throws on \<open>*\<close> and on ranges that do not intersect. Otherwise the
  intersection starts at the greater lower bound and ends at the smaller upper bound,
  and is printed in its shortest form: an exact version, \<open>^\<close> or \<open>~\<close> before the lower
  bound. An intersection that has none of these forms is outside the fragment.
\<close>

fun upperOf :: "frag_range \<Rightarrow> ver option" where
  "upperOf AnyVersion = None"
| "upperOf (Exactly t w) = None"
| "upperOf (Caret t w) = Some (caretUpper w)"
| "upperOf (Tilde t w) = Some (tildeUpper w)"

fun isExactly :: "frag_range \<Rightarrow> bool" where
  "isExactly (Exactly t w) = True"
| "isExactly r = False"

definition lowerUpper :: "frag_range \<Rightarrow> frag_range \<Rightarrow> ver option" where
  "lowerUpper r1 r2 =
     (case (upperOf r1, upperOf r2) of
        (Some u1, Some u2) \<Rightarrow> Some (if verLess u2 u1 then u2 else u1)
      | _ \<Rightarrow> None)"

definition fragIntersect :: "string \<Rightarrow> string \<Rightarrow> string option" where
  "fragIntersect range1 range2 =
     (case (parseFragRange range1, parseFragRange range2) of
        (Some r1, Some r2) \<Rightarrow>
          if r1 = AnyVersion \<or> r2 = AnyVersion \<or> \<not> rangesMeet r1 r2 then None
          else (case versionText (higher r1 r2) of
                  None \<Rightarrow> None
                | Some t \<Rightarrow>
                    if isExactly r1 \<or> isExactly r2 then Some t
                    else if lowerUpper r1 r2 = Some (caretUpper (lowerBound (higher r1 r2)))
                    then Some (CHR ''^'' # t)
                    else if lowerUpper r1 r2 = Some (tildeUpper (lowerBound (higher r1 r2)))
                    then Some (CHR ''~'' # t)
                    else None)
      | _ \<Rightarrow> None)"

definition semverFragment :: semver_lib where
  "semverFragment =
     \<lparr>semver_validRange = fragValidRange,
      semver_valid = fragValid,
      semver_maxSatisfying = fragMaxSatisfying,
      semver_intersects = fragIntersects,
      semver_lt = fragLt,
      semverIntersect_intersect = fragIntersect,
      semverIntersect_parseRange = fragParseRange\<rparr>"

section \<open>Minimum versions\<close>




section \<open>Ranked registries\<close>

text \<open>
  A registry snapshot is ranked when a peer dependency of any published version of a
  package has a smaller rank than the package: its peer-dependency graph has no cycle.
\<close>

definition peerRanked :: "registry \<Rightarrow> (string \<Rightarrow> nat) \<Rightarrow> bool" where
  "peerRanked reg rank \<longleftrightarrow>
     (\<forall>depName npmPackageJson version innerNpmPackageJson peer selector.
        reg depName = Inr npmPackageJson \<longrightarrow>
        (version, innerNpmPackageJson) \<in> set (npm_versions npmPackageJson) \<longrightarrow>
        (peer, selector) \<in> set (peerDependenciesOf innerNpmPackageJson) \<longrightarrow>
        rank peer < rank depName)"

text \<open>
  The weight of a piece of work on a ranked registry: nothing for an edge that is not a
  target of its call, otherwise twice the rank of the package, plus three before the
  second stage and plus two after it.
\<close>

fun workWeight :: "(string \<Rightarrow> nat) \<Rightarrow> work \<Rightarrow> nat" where
  "workWeight rank (Edge packages depName depVersion) =
     (case truthy (map_of packages depName) of
        None \<Rightarrow> 0
      | Some version \<Rightarrow> 2 * rank depName + 3)"
| "workWeight rank (Task version depName depVersion) = 2 * rank depName + 2"

fun configWeight :: "(string \<Rightarrow> nat) \<Rightarrow> config \<Rightarrow> nat multiset" where
  "configWeight rank (Running allVersions ws) =
     add_mset 0 (image_mset (workWeight rank) (mset ws))"
| "configWeight rank (Stopped e) = {#}"

section \<open>Scenarios\<close>

text \<open>
  Registry snapshots and manifests on which the engine is evaluated. A package the
  snapshot does not know gives a failed fetch.
\<close>

definition noPeers :: version_json where
  "noPeers = \<lparr>peerDependencies = None\<rparr>"

definition peers :: "dict \<Rightarrow> version_json" where
  "peers deps = \<lparr>peerDependencies = Some deps\<rparr>"

definition npmPackage ::
  "string \<Rightarrow> dict \<Rightarrow> (string \<times> version_json) list \<Rightarrow> npm_package_json" where
  "npmPackage n tags vs = \<lparr>npm_name = n, npm_dist_tags = Some tags, npm_versions = vs\<rparr>"

text \<open>
  \<open>a\<close> is published as 1.0.0 and 1.2.0, \<open>latest\<close> is 1.2.0, and 1.2.0 has the peer
  dependency \<open>b@^2.0.0\<close>; \<open>b\<close> is published as 2.0.0 and 2.5.0.
\<close>

definition packageA :: npm_package_json where
  "packageA =
     npmPackage ''a'' [(''latest'', ''1.2.0'')]
       [(''1.0.0'', noPeers), (''1.2.0'', peers [(''b'', ''^2.0.0'')])]"

definition packageB :: npm_package_json where
  "packageB =
     npmPackage ''b'' [(''latest'', ''2.5.0'')] [(''2.0.0'', noPeers), (''2.5.0'', noPeers)]"

definition registryAB :: registry where
  "registryAB depName =
     (if depName = ''a'' then Inr packageA
      else if depName = ''b'' then Inr packageB
      else Inl ''not found'')"

definition manifestA :: package_json where
  "manifestA = [(''dependencies'', [(''a'', ''^1.0.0'')])]"

definition manifestAB :: package_json where
  "manifestAB = [(''dependencies'', [(''a'', ''^1.0.0''), (''b'', ''^1.0.0'')])]"


text \<open>
  \<open>s\<close> is published as 1.0.0 only, while its tag \<open>latest\<close> names 0.9.0; \<open>d\<close> is
  published as 0.9.0 and 1.0.0.
\<close>

definition packageStale :: npm_package_json where
  "packageStale = npmPackage ''s'' [(''latest'', ''0.9.0'')] [(''1.0.0'', noPeers)]"

definition packageD :: npm_package_json where
  "packageD =
     npmPackage ''d'' [(''latest'', ''1.0.0'')] [(''0.9.0'', noPeers), (''1.0.0'', noPeers)]"

definition registrySD :: registry where
  "registrySD depName =
     (if depName = ''s'' then Inr packageStale
      else if depName = ''d'' then Inr packageD
      else Inl ''not found'')"

definition manifestS :: package_json where
  "manifestS = [(''dependencies'', [(''s'', ''1.0.0'')])]"

definition manifestD :: package_json where
  "manifestD = [(''dependencies'', [(''d'', ''1.0.0'')])]"

text \<open>
  \<open>p\<close> is published as 2.0.0, which has the peer dependency \<open>q@^3.0.0\<close>. \<open>q\<close> is
  published as 2.0.0 and 3.0.0 with \<open>latest\<close> at 2.0.0; \<open>r\<close> is published as 3.0.0 only,
  while its tag \<open>latest\<close> names 2.0.0.
\<close>

definition packageP :: "string \<Rightarrow> npm_package_json" where
  "packageP peer =
     npmPackage ''p'' [(''latest'', ''2.0.0'')] [(''2.0.0'', peers [(peer, ''^3.0.0'')])]"

definition packageQ :: npm_package_json where
  "packageQ =
     npmPackage ''q'' [(''latest'', ''2.0.0'')] [(''2.0.0'', noPeers), (''3.0.0'', noPeers)]"

definition packageR :: npm_package_json where
  "packageR = npmPackage ''r'' [(''latest'', ''2.0.0'')] [(''3.0.0'', noPeers)]"

definition registryPQ :: registry where
  "registryPQ depName =
     (if depName = ''p'' then Inr (packageP ''q'')
      else if depName = ''q'' then Inr packageQ
      else Inl ''not found'')"

definition registryPR :: registry where
  "registryPR depName =
     (if depName = ''p'' then Inr (packageP ''r'')
      else if depName = ''r'' then Inr packageR
      else Inl ''not found'')"

definition manifestPQ :: package_json where
  "manifestPQ = [(''dependencies'', [(''p'', ''^1.0.0''), (''q'', ''^1.0.0'')])]"

definition manifestPR :: package_json where
  "manifestPR = [(''dependencies'', [(''p'', ''^1.0.0''), (''r'', ''^1.0.0'')])]"

text \<open>
  \<open>x\<close> and \<open>y\<close> are published as 1.0.0 and 2.0.0; version 2.0.0 of each has the other as
  a peer dependency, at \<open>^2.0.0\<close>.
\<close>

definition packageX :: npm_package_json where
  "packageX =
     npmPackage ''x'' [(''latest'', ''2.0.0'')]
       [(''1.0.0'', noPeers), (''2.0.0'', peers [(''y'', ''^2.0.0'')])]"

definition packageY :: npm_package_json where
  "packageY =
     npmPackage ''y'' [(''latest'', ''2.0.0'')]
       [(''1.0.0'', noPeers), (''2.0.0'', peers [(''x'', ''^2.0.0'')])]"

definition registryXY :: registry where
  "registryXY depName =
     (if depName = ''x'' then Inr packageX
      else if depName = ''y'' then Inr packageY
      else Inl ''not found'')"

definition manifestXY :: package_json where
  "manifestXY = [(''dependencies'', [(''x'', ''^1.0.0''), (''y'', ''^1.0.0'')])]"






section \<open>Properties of version selection\<close>

text \<open>
  C3, as the code has it. For a selector that names no dist-tag, is a valid range and
  has a greatest satisfying version \<open>m\<close>, the result follows the shape of the selector
  after widening: \<open>*\<close> gives \<open>m\<close>; a leading \<open>~\<close> or \<open>^\<close> is put before \<open>m\<close>; any other
  selector gives \<open>~m\<close> when \<open>loose\<close> is set and the bare \<open>m\<close> when it is not.
\<close>

theorem selection_encoding:
  assumes "distTag json version = None"
    and "semver_validRange L version"
    and "truthy (semver_maxSatisfying L (map fst (npm_versions json)) (widen L version loose))
           = Some m"
  shows "getVersionFromNpmPackage L json version loose =
           Inr (if widen L version loose = ''*'' then m
                else if maybeOperator (widen L version loose) = Some CHR ''~'' then CHR ''~'' # m
                else if maybeOperator (widen L version loose) = Some CHR ''^'' then CHR ''^'' # m
                else if loose then CHR ''~'' # m
                else m)"
proof -
  have op: "maybeOperator s = Some c \<Longrightarrow> c = CHR ''~'' \<or> c = CHR ''^''" for s c
    by (cases s) (auto split: if_splits)
  show ?thesis
    using assms op [of "widen L version loose"]
    by (auto simp: getVersionFromNpmPackage_def loosePrefix_def Let_def split: option.splits)
qed

theorem selection_encoding_witness:
  "getVersionFromNpmPackage semverFragment packageA ''^1.0.0'' False = Inr ''^1.2.0''"
proof -
  have h1: "distTag packageA ''^1.0.0'' = None" by code_simp
  have h2: "semver_validRange semverFragment ''^1.0.0''" by code_simp
  have h3: "truthy (semver_maxSatisfying semverFragment (map fst (npm_versions packageA))
              (widen semverFragment ''^1.0.0'' False)) = Some ''1.2.0''" by code_simp
  have h4: "widen semverFragment ''^1.0.0'' False = ''^1.0.0''" by code_simp
  show ?thesis using selection_encoding [OF h1 h2 h3] unfolding h4 by simp
qed

text \<open>
  C3 as stated fails: the exact version \<open>1.0.0\<close> names no dist-tag of \<open>a\<close> and has no
  operator, and without \<open>loose\<close> it resolves to the bare \<open>1.0.0\<close>, not to \<open>~1.0.0\<close>.
\<close>

theorem selection_unprefixed_counterexample:
  "distTag packageA ''1.0.0'' = None \<and>
   maybeOperator ''1.0.0'' = None \<and>
   getVersionFromNpmPackage semverFragment packageA ''1.0.0'' False = Inr ''1.0.0'' \<and>
   getVersionFromNpmPackage semverFragment packageA ''1.0.0'' False \<noteq> Inr ''~1.0.0''"
  by code_simp

section \<open>Properties of one edge\<close>

lemma walkEdges_append:
  "walkEdges resolve (es1 @ es2) acc =
     (case walkEdges resolve es1 acc of
        Done acc1 \<Rightarrow> walkEdges resolve es2 acc1
      | Failed e \<Rightarrow> Failed e
      | OutOfFuel \<Rightarrow> OutOfFuel)"
  by (induction es1 arbitrary: acc) (auto split: outcome.splits)

lemma walkEdges_at:
  assumes "walkEdges resolve before acc0 = Done acc"
  shows "walkEdges resolve (before @ edge # after) acc0 =
           (case resolve acc edge of
              Done acc' \<Rightarrow> walkEdges resolve after acc'
            | Failed e \<Rightarrow> Failed e
            | OutOfFuel \<Rightarrow> OutOfFuel)"
  using assms by (simp add: walkEdges_append)

text \<open>
  C10. On a fetched edge whose updated constraint no published version satisfies, the
  third stage drops the edge: whatever the downgrade and intersection tests would say
  and whatever the recursive call would do, the edge ends without an error and with the
  accumulator as it was; as a step among other work, it leaves the accumulator and the
  other work as they were and adds no work.
\<close>

theorem unmatched_update_dropped:
  assumes "selectEdge L packages allVersions depName depVersion = Inr (Fetch version)"
    and "reg depName = Inr npmPackageJson"
    and "getVersionFromNpmPackage L npmPackageJson version loose = Inr updateVersion"
    and "truthy (semver_maxSatisfying L (map fst (npm_versions npmPackageJson)) updateVersion)
           = None"
  shows "recordUpdate L loose allVersions version depName depVersion npmPackageJson
           = Inr Dropped \<and>
         resolveEdge L reg loose recurse packages allVersions (depName, depVersion)
           = Done allVersions \<and>
         step L reg loose packageJson
           (Running allVersions (ws1 @ Task version depName depVersion # ws2))
           (Running allVersions (ws1 @ ws2))"
proof -
  have r: "recordUpdate L loose allVersions version depName depVersion npmPackageJson
             = Inr Dropped"
    using assms(3,4) by (simp add: recordUpdate_def)
  moreover have "resolveEdge L reg loose recurse packages allVersions (depName, depVersion)
                   = Done allVersions"
    using assms(1,2) r by (simp add: resolveEdge_def)
  moreover have "step L reg loose packageJson
                   (Running allVersions (ws1 @ Task version depName depVersion # ws2))
                   (Running allVersions (ws1 @ ws2))"
    by (rule step.dropped [where reg = reg and depName = depName, OF assms(2) r])
  ultimately show ?thesis by simp
qed

text \<open>
  The branch is reachable: the tag \<open>latest\<close> of \<open>s\<close> names 0.9.0, which is not among the
  published versions.
\<close>

theorem unmatched_update_dropped_witness:
  "getVersionFromNpmPackage semverFragment packageStale ''latest'' False = Inr ''0.9.0'' \<and>
   semver_maxSatisfying semverFragment (map fst (npm_versions packageStale)) ''0.9.0'' = None \<and>
   recordUpdate semverFragment False [] ''latest'' ''s'' ''1.0.0'' packageStale = Inr Dropped \<and>
   resolveEdge semverFragment registrySD False (\<lambda>packages allVersions. OutOfFuel)
       [(''s'', ''latest'')] [] (''s'', ''1.0.0'') = Done []"
proof -
  have h1: "selectEdge semverFragment [(''s'', ''latest'')] [] ''s'' ''1.0.0''
              = Inr (Fetch ''latest'')" by code_simp
  have h2: "registrySD ''s'' = Inr packageStale" by code_simp
  have h3: "getVersionFromNpmPackage semverFragment packageStale ''latest'' False
              = Inr ''0.9.0''" by code_simp
  have h4: "semver_maxSatisfying semverFragment (map fst (npm_versions packageStale)) ''0.9.0''
              = None" by code_simp
  have h5: "truthy (semver_maxSatisfying semverFragment (map fst (npm_versions packageStale))
              ''0.9.0'') = None" by (simp add: h4)
  show ?thesis
    using unmatched_update_dropped [where reg = registrySD, OF h1 h2 h3 h5] h3 h4 by simp
qed

text \<open>
  C5, as the code has it. On a fetched edge whose updated constraint some published
  version satisfies, if the version of the updated constraint is less than the version
  of the constraint the manifest declares, the third stage throws the downgrade error
  with the package and both constraints; the call that walks the edge fails with it, and
  as a step among other work it stops the run with it.
\<close>

theorem downgrade_rejected:
  assumes "manifestEdges packageJson = before @ (depName, depVersion) # after"
    and "walkEdges
           (resolveEdge L reg loose (getRecursiveVersions L reg loose packageJson fuel) packages)
           before allVersions0 = Done allVersions"
    and "selectEdge L packages allVersions depName depVersion = Inr (Fetch version)"
    and "reg depName = Inr npmPackageJson"
    and "getVersionFromNpmPackage L npmPackageJson version loose = Inr updateVersion"
    and "truthy (semver_maxSatisfying L (map fst (npm_versions npmPackageJson)) updateVersion)
           = Some match"
    and "isDowngrade L updateVersion depVersion = Some True"
  shows "recordUpdate L loose allVersions version depName depVersion npmPackageJson
           = Inl (DowngradeError depName depVersion updateVersion) \<and>
         getRecursiveVersions L reg loose packageJson (Suc fuel) packages allVersions0
           = Failed (DowngradeError depName depVersion updateVersion) \<and>
         step L reg loose packageJson
           (Running allVersions (ws1 @ Task version depName depVersion # ws2))
           (Stopped (DowngradeError depName depVersion updateVersion))"
proof -
  have r: "recordUpdate L loose allVersions version depName depVersion npmPackageJson
             = Inl (DowngradeError depName depVersion updateVersion)"
    using assms(5-7) by (simp add: recordUpdate_def)
  have "resolveEdge L reg loose (getRecursiveVersions L reg loose packageJson fuel) packages
          allVersions (depName, depVersion)
          = Failed (DowngradeError depName depVersion updateVersion)"
    using assms(3,4) r by (simp add: resolveEdge_def)
  then have "getRecursiveVersions L reg loose packageJson (Suc fuel) packages allVersions0
               = Failed (DowngradeError depName depVersion updateVersion)"
    using assms(1) walkEdges_at [OF assms(2)] by simp
  moreover have "step L reg loose packageJson
                   (Running allVersions (ws1 @ Task version depName depVersion # ws2))
                   (Stopped (DowngradeError depName depVersion updateVersion))"
    by (rule step.recordThrows [where reg = reg and depName = depName, OF assms(4) r])
  ultimately show ?thesis using r by simp
qed

text \<open>The scenario of the specification: \<open>d\<close> is declared at 1.0.0 and the target is 0.9.0.\<close>

theorem downgrade_rejected_witness:
  "getRecursiveVersions semverFragment registrySD False manifestD (Suc 0)
     [(''d'', ''0.9.0'')] [] = Failed (DowngradeError ''d'' ''1.0.0'' ''0.9.0'')"
proof -
  have h1: "manifestEdges manifestD = [] @ (''d'', ''1.0.0'') # []" by code_simp
  have h2: "walkEdges
              (resolveEdge semverFragment registrySD False
                 (getRecursiveVersions semverFragment registrySD False manifestD 0)
                 [(''d'', ''0.9.0'')])
              [] [] = Done []" by simp
  have h3: "selectEdge semverFragment [(''d'', ''0.9.0'')] [] ''d'' ''1.0.0''
              = Inr (Fetch ''0.9.0'')" by code_simp
  have h4: "registrySD ''d'' = Inr packageD" by code_simp
  have h5: "getVersionFromNpmPackage semverFragment packageD ''0.9.0'' False = Inr ''0.9.0''"
    by code_simp
  have h6: "truthy (semver_maxSatisfying semverFragment (map fst (npm_versions packageD))
              ''0.9.0'') = Some ''0.9.0''" by code_simp
  have h7: "isDowngrade semverFragment ''0.9.0'' ''1.0.0'' = Some True" by code_simp
  show ?thesis
    using downgrade_rejected [where reg = registrySD, OF h1 h2 h3 h4 h5 h6 h7] by simp
qed

text \<open>
  C5 as stated fails on a fetched edge that is dropped: \<open>s\<close> is declared at 1.0.0, the
  tag \<open>latest\<close> resolves to 0.9.0, which is less, and the run ends without an error.
\<close>

theorem downgrade_unmatched_counterexample:
  "selectEdge semverFragment [(''s'', ''latest'')] [] ''s'' ''1.0.0'' = Inr (Fetch ''latest'') \<and>
   getVersionFromNpmPackage semverFragment packageStale ''latest'' False = Inr ''0.9.0'' \<and>
   isDowngrade semverFragment ''0.9.0'' ''1.0.0'' = Some True \<and>
   getRecursiveVersions semverFragment registrySD False manifestS (Suc 0)
     [(''s'', ''latest'')] [] = Done []"
  by code_simp

text \<open>
  C4, as the code has it. On a fetched edge that reaches the merge (a published version
  satisfies the updated constraint, it is in the registry document, and the update is no
  downgrade): if the accumulator holds a constraint for the package that does not
  intersect the updated one, the third stage throws the conflict error with the package
  and both constraints, the call that walks the edge fails with it, and as a step among
  other work it stops the run with it; if the two intersect, the entry becomes their
  intersection; if the accumulator holds nothing for the package, the entry becomes the
  updated constraint.
\<close>

theorem merge_or_conflict:
  assumes "manifestEdges packageJson = before @ (depName, depVersion) # after"
    and "walkEdges
           (resolveEdge L reg loose (getRecursiveVersions L reg loose packageJson fuel) packages)
           before allVersions0 = Done allVersions"
    and "selectEdge L packages allVersions depName depVersion = Inr (Fetch version)"
    and "reg depName = Inr npmPackageJson"
    and "getVersionFromNpmPackage L npmPackageJson version loose = Inr updateVersion"
    and "truthy (semver_maxSatisfying L (map fst (npm_versions npmPackageJson)) updateVersion)
           = Some match"
    and "map_of (npm_versions npmPackageJson) match = Some innerNpmPackageJson"
    and "isDowngrade L updateVersion depVersion = Some False"
  shows "(truthy (map_of allVersions depName) = Some current \<and>
          semver_intersects L current updateVersion = Some False \<longrightarrow>
            recordUpdate L loose allVersions version depName depVersion npmPackageJson
              = Inl (ConflictError depName updateVersion current) \<and>
            getRecursiveVersions L reg loose packageJson (Suc fuel) packages allVersions0
              = Failed (ConflictError depName updateVersion current) \<and>
            step L reg loose packageJson
              (Running allVersions (ws1 @ Task version depName depVersion # ws2))
              (Stopped (ConflictError depName updateVersion current))) \<and>
         (truthy (map_of allVersions depName) = Some current \<and>
          semver_intersects L current updateVersion = Some True \<and>
          semverIntersect_intersect L current updateVersion = Some merged \<longrightarrow>
            recordUpdate L loose allVersions version depName depVersion npmPackageJson
              = Inr (Recorded (AList.update depName merged allVersions)
                       (peerDependenciesOf innerNpmPackageJson))) \<and>
         (truthy (map_of allVersions depName) = None \<longrightarrow>
            recordUpdate L loose allVersions version depName depVersion npmPackageJson
              = Inr (Recorded (AList.update depName updateVersion allVersions)
                       (peerDependenciesOf innerNpmPackageJson)))"
proof (intro conjI impI)
  assume a: "truthy (map_of allVersions depName) = Some current \<and>
             semver_intersects L current updateVersion = Some False"
  then show conflict:
    "recordUpdate L loose allVersions version depName depVersion npmPackageJson
       = Inl (ConflictError depName updateVersion current)"
    using assms(5-8) by (simp add: recordUpdate_def mergeVersion_def)
  then have "resolveEdge L reg loose (getRecursiveVersions L reg loose packageJson fuel)
               packages allVersions (depName, depVersion)
               = Failed (ConflictError depName updateVersion current)"
    using assms(3,4) by (simp add: resolveEdge_def)
  then show "getRecursiveVersions L reg loose packageJson (Suc fuel) packages allVersions0
               = Failed (ConflictError depName updateVersion current)"
    using assms(1) walkEdges_at [OF assms(2)] by simp
  show "step L reg loose packageJson
          (Running allVersions (ws1 @ Task version depName depVersion # ws2))
          (Stopped (ConflictError depName updateVersion current))"
    by (rule step.recordThrows [where reg = reg and depName = depName, OF assms(4) conflict])
next
  assume "truthy (map_of allVersions depName) = Some current \<and>
          semver_intersects L current updateVersion = Some True \<and>
          semverIntersect_intersect L current updateVersion = Some merged"
  then show "recordUpdate L loose allVersions version depName depVersion npmPackageJson
               = Inr (Recorded (AList.update depName merged allVersions)
                        (peerDependenciesOf innerNpmPackageJson))"
    using assms(5-8) by (simp add: recordUpdate_def mergeVersion_def)
next
  assume "truthy (map_of allVersions depName) = None"
  then show "recordUpdate L loose allVersions version depName depVersion npmPackageJson
               = Inr (Recorded (AList.update depName updateVersion allVersions)
                        (peerDependenciesOf innerNpmPackageJson))"
    using assms(5-8) by (simp add: recordUpdate_def mergeVersion_def)
qed

text \<open>
  The three cases at work: the conflict of the scenario with \<open>p\<close> and \<open>q\<close>, a merge by
  intersection, and the first record of \<open>a\<close>.
\<close>

theorem merge_or_conflict_witness:
  "getRecursiveVersions semverFragment registryPQ False manifestPQ (Suc (Suc (Suc 0)))
     [(''p'', ''latest''), (''q'', ''latest'')] []
     = Failed (ConflictError ''q'' ''2.0.0'' ''^3.0.0'') \<and>
   recordUpdate semverFragment False [(''q'', ''^3.0.0'')] ''^3.0.0'' ''q'' ''^1.0.0'' packageQ
     = Inr (Recorded [(''q'', ''^3.0.0'')] []) \<and>
   recordUpdate semverFragment False [] ''latest'' ''a'' ''^1.0.0'' packageA
     = Inr (Recorded [(''a'', ''1.2.0'')] [(''b'', ''^2.0.0'')])"
proof -
  have e: "manifestEdges manifestPQ = [(''p'', ''^1.0.0'')] @ (''q'', ''^1.0.0'') # []"
    by code_simp
  have c2: "walkEdges
              (resolveEdge semverFragment registryPQ False
                 (getRecursiveVersions semverFragment registryPQ False manifestPQ (Suc (Suc 0)))
                 [(''p'', ''latest''), (''q'', ''latest'')])
              [(''p'', ''^1.0.0'')] [] = Done [(''p'', ''2.0.0''), (''q'', ''^3.0.0'')]"
    by code_simp
  have c3: "selectEdge semverFragment [(''p'', ''latest''), (''q'', ''latest'')]
              [(''p'', ''2.0.0''), (''q'', ''^3.0.0'')] ''q'' ''^1.0.0'' = Inr (Fetch ''latest'')"
    by code_simp
  have c4: "registryPQ ''q'' = Inr packageQ" by code_simp
  have c5: "getVersionFromNpmPackage semverFragment packageQ ''latest'' False = Inr ''2.0.0''"
    by code_simp
  have c6: "truthy (semver_maxSatisfying semverFragment (map fst (npm_versions packageQ))
              ''2.0.0'') = Some ''2.0.0''" by code_simp
  have c7: "map_of (npm_versions packageQ) ''2.0.0'' = Some noPeers" by code_simp
  have c8: "isDowngrade semverFragment ''2.0.0'' ''^1.0.0'' = Some False" by code_simp
  have c9: "truthy (map_of [(''p'', ''2.0.0''), (''q'', ''^3.0.0'')] ''q'') = Some ''^3.0.0'' \<and>
            semver_intersects semverFragment ''^3.0.0'' ''2.0.0'' = Some False" by code_simp
  have conflict:
    "getRecursiveVersions semverFragment registryPQ False manifestPQ (Suc (Suc (Suc 0)))
       [(''p'', ''latest''), (''q'', ''latest'')] []
       = Failed (ConflictError ''q'' ''2.0.0'' ''^3.0.0'')"
    using merge_or_conflict [where reg = registryPQ and current = "''^3.0.0''",
        OF e c2 c3 c4 c5 c6 c7 c8] c9
    by simp
  have m2: "walkEdges
              (resolveEdge semverFragment registryPQ False
                 (getRecursiveVersions semverFragment registryPQ False manifestPQ 0)
                 [(''q'', ''^3.0.0'')])
              [(''p'', ''^1.0.0'')] [(''q'', ''^3.0.0'')] = Done [(''q'', ''^3.0.0'')]"
    by code_simp
  have m3: "selectEdge semverFragment [(''q'', ''^3.0.0'')] [(''q'', ''^3.0.0'')] ''q'' ''^1.0.0''
              = Inr (Fetch ''^3.0.0'')" by code_simp
  have m5: "getVersionFromNpmPackage semverFragment packageQ ''^3.0.0'' False = Inr ''^3.0.0''"
    by code_simp
  have m6: "truthy (semver_maxSatisfying semverFragment (map fst (npm_versions packageQ))
              ''^3.0.0'') = Some ''3.0.0''" by code_simp
  have m7: "map_of (npm_versions packageQ) ''3.0.0'' = Some noPeers" by code_simp
  have m8: "isDowngrade semverFragment ''^3.0.0'' ''^1.0.0'' = Some False" by code_simp
  have m9: "truthy (map_of [(''q'', ''^3.0.0'')] ''q'') = Some ''^3.0.0'' \<and>
            semver_intersects semverFragment ''^3.0.0'' ''^3.0.0'' = Some True \<and>
            semverIntersect_intersect semverFragment ''^3.0.0'' ''^3.0.0'' = Some ''^3.0.0''"
    by code_simp
  have p0: "peerDependenciesOf noPeers = []" by code_simp
  have merged:
    "recordUpdate semverFragment False [(''q'', ''^3.0.0'')] ''^3.0.0'' ''q'' ''^1.0.0'' packageQ
       = Inr (Recorded [(''q'', ''^3.0.0'')] [])"
    using merge_or_conflict [where reg = registryPQ and current = "''^3.0.0''"
          and merged = "''^3.0.0''", OF e m2 m3 c4 m5 m6 m7 m8] m9 p0
    by simp
  have a1: "manifestEdges manifestA = [] @ (''a'', ''^1.0.0'') # []" by code_simp
  have a2: "walkEdges
              (resolveEdge semverFragment registryAB False
                 (getRecursiveVersions semverFragment registryAB False manifestA 0)
                 [(''a'', ''latest'')])
              [] [] = Done []" by simp
  have a3: "selectEdge semverFragment [(''a'', ''latest'')] [] ''a'' ''^1.0.0''
              = Inr (Fetch ''latest'')" by code_simp
  have a4: "registryAB ''a'' = Inr packageA" by code_simp
  have a5: "getVersionFromNpmPackage semverFragment packageA ''latest'' False = Inr ''1.2.0''"
    by code_simp
  have a6: "truthy (semver_maxSatisfying semverFragment (map fst (npm_versions packageA))
              ''1.2.0'') = Some ''1.2.0''" by code_simp
  have a7: "map_of (npm_versions packageA) ''1.2.0'' = Some (peers [(''b'', ''^2.0.0'')])"
    by code_simp
  have a8: "isDowngrade semverFragment ''1.2.0'' ''^1.0.0'' = Some False" by code_simp
  have a9: "truthy (map_of [] ''a'') = None" by simp
  have p1: "peerDependenciesOf (peers [(''b'', ''^2.0.0'')]) = [(''b'', ''^2.0.0'')]"
    by code_simp
  have absent:
    "recordUpdate semverFragment False [] ''latest'' ''a'' ''^1.0.0'' packageA
       = Inr (Recorded [(''a'', ''1.2.0'')] [(''b'', ''^2.0.0'')])"
    using merge_or_conflict [where reg = registryAB, OF a1 a2 a3 a4 a5 a6 a7 a8] a9 p1
    by simp
  show ?thesis using conflict merged absent by simp
qed

text \<open>
  C4 as stated fails on a fetched edge that is dropped. After \<open>p\<close> has brought in
  \<open>r@^3.0.0\<close>, the anchor edge of \<open>r\<close> resolves the tag \<open>latest\<close> to 2.0.0, which does not
  intersect \<open>^3.0.0\<close> and which no published version satisfies: the edge is dropped and
  the run completes.
\<close>

theorem conflict_unmatched_counterexample:
  "truthy (map_of [(''p'', ''2.0.0''), (''r'', ''^3.0.0'')] ''r'') = Some ''^3.0.0'' \<and>
   getVersionFromNpmPackage semverFragment packageR ''latest'' False = Inr ''2.0.0'' \<and>
   semver_intersects semverFragment ''^3.0.0'' ''2.0.0'' = Some False \<and>
   recordUpdate semverFragment False [(''p'', ''2.0.0''), (''r'', ''^3.0.0'')] ''latest'' ''r''
     ''^1.0.0'' packageR = Inr Dropped \<and>
   getRecursiveVersions semverFragment registryPR False manifestPR (Suc (Suc (Suc 0)))
     [(''p'', ''latest''), (''r'', ''latest'')] []
     = Done [(''p'', ''2.0.0''), (''r'', ''^3.0.0'')]"
  by code_simp

section \<open>Properties of the interleavings\<close>

lemma truthy_Some: "truthy x = Some s \<longleftrightarrow> x = Some s \<and> s \<noteq> []"
  by (cases x) auto

lemma map_of_update_other:
  "k' \<noteq> k \<Longrightarrow> map_of (AList.update k v al) k' = map_of al k'"
  by (simp add: update_conv')


lemma selectEdge_other:
  assumes "selectEdge L packages allVersions depName depVersion = Inr (Narrowed allVersions')"
    and "n \<noteq> depName"
  shows "map_of allVersions' n = map_of allVersions n"
  using assms
  by (auto simp: selectEdge_def map_of_update_other split: option.splits if_splits bool.splits)

lemma mergeVersion_other:
  assumes "mergeVersion L allVersions depName updateVersion = Inr allVersions'"
    and "n \<noteq> depName"
  shows "map_of allVersions' n = map_of allVersions n"
  using assms
  by (auto simp: mergeVersion_def map_of_update_other split: option.splits bool.splits)

lemma recordUpdate_Recorded:
  assumes "recordUpdate L loose allVersions version depName depVersion npmPackageJson
             = Inr (Recorded allVersions' dependencies)"
  shows "\<exists>updateVersion match innerNpmPackageJson.
           getVersionFromNpmPackage L npmPackageJson version loose = Inr updateVersion \<and>
           truthy (semver_maxSatisfying L (map fst (npm_versions npmPackageJson)) updateVersion)
             = Some match \<and>
           isDowngrade L updateVersion depVersion = Some False \<and>
           map_of (npm_versions npmPackageJson) match = Some innerNpmPackageJson \<and>
           mergeVersion L allVersions depName updateVersion = Inr allVersions' \<and>
           dependencies = peerDependenciesOf innerNpmPackageJson"
  using assms
  by (auto simp: recordUpdate_def split: sum.splits option.splits bool.splits)

lemma subscribeEdges_manifestWork: "manifestWork packageJson (subscribeEdges packageJson packages)"
  by (auto simp: manifestWork_def subscribeEdges_def list_all_iff)

lemma manifestWork_append [simp]:
  "manifestWork packageJson (ws1 @ ws2) \<longleftrightarrow>
     manifestWork packageJson ws1 \<and> manifestWork packageJson ws2"
  by (simp add: manifestWork_def)

lemma manifestWork_Cons [simp]:
  "manifestWork packageJson (w # ws) \<longleftrightarrow>
     workEdge w \<in> set (manifestEdges packageJson) \<and> manifestWork packageJson ws"
  by (simp add: manifestWork_def)

text \<open>A run that has stopped with an error takes no further step.\<close>

lemma stopped_is_final: "\<not> step L reg loose packageJson (Stopped e) c"
  by (auto elim: step.cases)

text \<open>
  A step leaves work on edges of the manifest only, and leaves alone the entry of every
  package that the manifest does not declare.
\<close>

lemma step_work:
  assumes st: "step L reg loose packageJson (Running allVersions ws) (Running allVersions' ws')"
    and work: "manifestWork packageJson ws"
  shows "manifestWork packageJson ws' \<and>
         (\<forall>n. n \<notin> fst ` set (manifestEdges packageJson)
            \<longrightarrow> map_of allVersions' n = map_of allVersions n)"
  using st work
proof (cases rule: step.cases)
  case (skipped packages depName depVersion ws1 ws2)
  then show ?thesis using work by simp
next
  case (narrowed packages depName depVersion ws1 ws2)
  then have edge: "(depName, depVersion) \<in> set (manifestEdges packageJson)"
    using work by simp
  have "map_of allVersions' n = map_of allVersions n"
    if "n \<notin> fst ` set (manifestEdges packageJson)" for n
  proof -
    from that edge have "n \<noteq> depName" by force
    then show ?thesis using selectEdge_other narrowed by blast
  qed
  then show ?thesis using narrowed work by simp
next
  case (fetching packages depName depVersion version ws1 ws2)
  then show ?thesis using work by simp
next
  case (dropped depName npmPackageJson version depVersion ws1 ws2)
  then show ?thesis using work by simp
next
  case (recorded depName npmPackageJson version depVersion dependencies ws1 ws2)
  then have edge: "(depName, depVersion) \<in> set (manifestEdges packageJson)"
    using work by simp
  have "map_of allVersions' n = map_of allVersions n"
    if "n \<notin> fst ` set (manifestEdges packageJson)" for n
  proof -
    from that edge have ne: "n \<noteq> depName" by force
    from recordUpdate_Recorded recorded obtain updateVersion where
      "mergeVersion L allVersions depName updateVersion = Inr allVersions'"
      by blast
    then show ?thesis using mergeVersion_other ne by blast
  qed
  then show ?thesis
    using recorded work subscribeEdges_manifestWork by simp
qed

lemma steps_work:
  assumes run: "(step L reg loose packageJson)\<^sup>*\<^sup>* c c'"
  shows "c = Running allVersions ws \<Longrightarrow> c' = Running allVersions' ws' \<Longrightarrow>
         manifestWork packageJson ws \<Longrightarrow>
         manifestWork packageJson ws' \<and>
         (\<forall>n. n \<notin> fst ` set (manifestEdges packageJson)
            \<longrightarrow> map_of allVersions' n = map_of allVersions n)"
  using run
proof (induction arbitrary: allVersions' ws' rule: rtranclp_induct)
  case base
  then show ?case by simp
next
  case (step c1 c2)
  from step.hyps(2) step.prems(2) obtain acc1 ws1 where c1: "c1 = Running acc1 ws1"
    by (cases rule: step.cases) auto
  from step.IH [OF step.prems(1) c1 step.prems(3)]
  have w1: "manifestWork packageJson ws1"
    and u1: "\<forall>n. n \<notin> fst ` set (manifestEdges packageJson)
               \<longrightarrow> map_of acc1 n = map_of allVersions n"
    by simp_all
  from step.hyps(2) c1 step.prems(2)
  have "step L reg loose packageJson (Running acc1 ws1) (Running allVersions' ws')" by simp
  from step_work [OF this w1] u1 show ?case by simp
qed

text \<open>The walk with the documents in the cache is one of the interleavings.\<close>

lemma resolveEdge_steps:
  assumes rec: "\<And>deps acc ws.
      (case recurse deps acc of
         Done acc' \<Rightarrow> (step L reg loose packageJson)\<^sup>*\<^sup>*
                        (Running acc (subscribeEdges packageJson deps @ ws)) (Running acc' ws)
       | Failed e \<Rightarrow> (step L reg loose packageJson)\<^sup>*\<^sup>*
                        (Running acc (subscribeEdges packageJson deps @ ws)) (Stopped e)
       | OutOfFuel \<Rightarrow> True)"
  shows "(case resolveEdge L reg loose recurse packages allVersions (depName, depVersion) of
            Done acc' \<Rightarrow> (step L reg loose packageJson)\<^sup>*\<^sup>*
                           (Running allVersions (Edge packages depName depVersion # ws))
                           (Running acc' ws)
          | Failed e \<Rightarrow> (step L reg loose packageJson)\<^sup>*\<^sup>*
                           (Running allVersions (Edge packages depName depVersion # ws))
                           (Stopped e)
          | OutOfFuel \<Rightarrow> True)"
proof (cases "selectEdge L packages allVersions depName depVersion")
  case (Inl e)
  from step.selectThrows [OF Inl, where reg = reg and loose = loose
      and packageJson = packageJson and ?ws1.0 = "[]" and ?ws2.0 = ws]
  show ?thesis using Inl by (simp add: resolveEdge_def)
next
  case (Inr choice)
  show ?thesis
  proof (cases choice)
    case Skip
    from step.skipped [where L = L and packages = packages and allVersions = allVersions
        and depName = depName and depVersion = depVersion and reg = reg and loose = loose
        and packageJson = packageJson and ?ws1.0 = "[]" and ?ws2.0 = ws]
    show ?thesis using Inr Skip by (simp add: resolveEdge_def)
  next
    case (Narrowed acc1)
    from step.narrowed [where L = L and packages = packages and allVersions = allVersions
        and depName = depName and depVersion = depVersion and allVersions' = acc1
        and reg = reg and loose = loose and packageJson = packageJson
        and ?ws1.0 = "[]" and ?ws2.0 = ws]
    show ?thesis using Inr Narrowed by (simp add: resolveEdge_def)
  next
    case (Fetch version)
    from step.fetching [where L = L and packages = packages and allVersions = allVersions
        and depName = depName and depVersion = depVersion and version = version
        and reg = reg and loose = loose and packageJson = packageJson
        and ?ws1.0 = "[]" and ?ws2.0 = ws]
    have s1: "step L reg loose packageJson
                (Running allVersions (Edge packages depName depVersion # ws))
                (Running allVersions (Task version depName depVersion # ws))"
      using Inr Fetch by simp
    show ?thesis
    proof (cases "reg depName")
      case (Inl err)
      from step.fetchFails [where reg = reg and depName = depName and L = L and loose = loose
          and packageJson = packageJson and allVersions = allVersions and ?ws1.0 = "[]"
          and version = version and depVersion = depVersion and ?ws2.0 = ws, OF Inl]
      have "step L reg loose packageJson
              (Running allVersions (Task version depName depVersion # ws))
              (Stopped (RegistryError err))"
        by simp
      with s1 show ?thesis
        using Inr Fetch Inl by (simp add: resolveEdge_def)
    next
      case json: (Inr npmPackageJson)
      show ?thesis
      proof (cases "recordUpdate L loose allVersions version depName depVersion npmPackageJson")
        case (Inl e)
        from step.recordThrows [where reg = reg and depName = depName
            and packageJson = packageJson and ?ws1.0 = "[]" and ?ws2.0 = ws, OF json Inl]
        have "step L reg loose packageJson
                (Running allVersions (Task version depName depVersion # ws)) (Stopped e)"
          by simp
        with s1 show ?thesis
          using Inr Fetch json Inl by (simp add: resolveEdge_def)
      next
        case r: (Inr result)
        show ?thesis
        proof (cases result)
          case Dropped
          from step.dropped [where reg = reg and depName = depName and L = L and loose = loose
              and allVersions = allVersions and version = version and depVersion = depVersion
              and packageJson = packageJson and ?ws1.0 = "[]" and ?ws2.0 = ws, OF json]
          have "step L reg loose packageJson
                  (Running allVersions (Task version depName depVersion # ws))
                  (Running allVersions ws)"
            using r Dropped by simp
          with s1 show ?thesis
            using Inr Fetch json r Dropped by (simp add: resolveEdge_def)
        next
          case (Recorded acc1 dependencies)
          from step.recorded [where reg = reg and depName = depName and L = L and loose = loose
              and allVersions = allVersions and version = version and depVersion = depVersion
              and allVersions' = acc1 and dependencies = dependencies
              and packageJson = packageJson and ?ws1.0 = "[]" and ?ws2.0 = ws, OF json]
          have "step L reg loose packageJson
                  (Running allVersions (Task version depName depVersion # ws))
                  (Running acc1 (subscribeEdges packageJson dependencies @ ws))"
            using r Recorded by simp
          with s1 have two: "(step L reg loose packageJson)\<^sup>*\<^sup>*
                  (Running allVersions (Edge packages depName depVersion # ws))
                  (Running acc1 (subscribeEdges packageJson dependencies @ ws))"
            by simp
          have res: "resolveEdge L reg loose recurse packages allVersions (depName, depVersion)
                  = recurse dependencies acc1"
            using Inr Fetch json r Recorded by (simp add: resolveEdge_def)
          show ?thesis
          proof (cases "recurse dependencies acc1")
            case (Done acc2)
            with rec [where deps = dependencies and acc = acc1 and ws = ws] two res
            show ?thesis by simp
          next
            case (Failed e)
            with rec [where deps = dependencies and acc = acc1 and ws = ws] two res
            show ?thesis by simp
          next
            case OutOfFuel
            with res show ?thesis by simp
          qed
        qed
      qed
    qed
  qed
qed

lemma walkEdges_steps:
  assumes rec: "\<And>deps acc ws.
      (case recurse deps acc of
         Done acc' \<Rightarrow> (step L reg loose packageJson)\<^sup>*\<^sup>*
                        (Running acc (subscribeEdges packageJson deps @ ws)) (Running acc' ws)
       | Failed e \<Rightarrow> (step L reg loose packageJson)\<^sup>*\<^sup>*
                        (Running acc (subscribeEdges packageJson deps @ ws)) (Stopped e)
       | OutOfFuel \<Rightarrow> True)"
  shows "(case walkEdges (resolveEdge L reg loose recurse packages) edges allVersions of
            Done acc' \<Rightarrow> (step L reg loose packageJson)\<^sup>*\<^sup>*
                (Running allVersions
                   (map (\<lambda>(depName, depVersion). Edge packages depName depVersion) edges @ ws))
                (Running acc' ws)
          | Failed e \<Rightarrow> (step L reg loose packageJson)\<^sup>*\<^sup>*
                (Running allVersions
                   (map (\<lambda>(depName, depVersion). Edge packages depName depVersion) edges @ ws))
                (Stopped e)
          | OutOfFuel \<Rightarrow> True)"
proof (induction edges arbitrary: allVersions)
  case Nil
  show ?case by simp
next
  case (Cons edge edges)
  obtain depName depVersion where e: "edge = (depName, depVersion)" by (cases edge)
  let ?rest = "map (\<lambda>(depName, depVersion). Edge packages depName depVersion) edges @ ws"
  note first = resolveEdge_steps [where recurse = recurse and L = L and reg = reg
      and loose = loose and packageJson = packageJson and packages = packages
      and allVersions = allVersions and depName = depName and depVersion = depVersion
      and ws = ?rest, OF rec]
  show ?case
  proof (cases "resolveEdge L reg loose recurse packages allVersions (depName, depVersion)")
    case (Done acc1)
    with first have one: "(step L reg loose packageJson)\<^sup>*\<^sup>*
        (Running allVersions (Edge packages depName depVersion # ?rest)) (Running acc1 ?rest)"
      by simp
    show ?thesis
    proof (cases "walkEdges (resolveEdge L reg loose recurse packages) edges acc1")
      case inner: (Done acc2)
      with Cons.IH [of acc1] have "(step L reg loose packageJson)\<^sup>*\<^sup>*
          (Running acc1 ?rest) (Running acc2 ws)"
        by simp
      with one have "(step L reg loose packageJson)\<^sup>*\<^sup>*
          (Running allVersions (Edge packages depName depVersion # ?rest)) (Running acc2 ws)"
        by (rule rtranclp_trans)
      then show ?thesis using Done inner e by simp
    next
      case inner: (Failed err)
      with Cons.IH [of acc1] have "(step L reg loose packageJson)\<^sup>*\<^sup>*
          (Running acc1 ?rest) (Stopped err)"
        by simp
      with one have "(step L reg loose packageJson)\<^sup>*\<^sup>*
          (Running allVersions (Edge packages depName depVersion # ?rest)) (Stopped err)"
        by (rule rtranclp_trans)
      then show ?thesis using Done inner e by simp
    next
      case OutOfFuel
      then show ?thesis using Done e by simp
    qed
  next
    case (Failed err)
    with first show ?thesis using e by simp
  next
    case OutOfFuel
    then show ?thesis using e by simp
  qed
qed

lemma getRecursiveVersions_steps:
  "(case getRecursiveVersions L reg loose packageJson fuel packages allVersions of
      Done acc' \<Rightarrow> (step L reg loose packageJson)\<^sup>*\<^sup>*
          (Running allVersions (subscribeEdges packageJson packages @ ws)) (Running acc' ws)
    | Failed e \<Rightarrow> (step L reg loose packageJson)\<^sup>*\<^sup>*
          (Running allVersions (subscribeEdges packageJson packages @ ws)) (Stopped e)
    | OutOfFuel \<Rightarrow> True)"
proof (induction fuel arbitrary: packages allVersions ws)
  case 0
  show ?case by simp
next
  case (Suc fuel)
  show ?case
    using walkEdges_steps [where recurse = "getRecursiveVersions L reg loose packageJson fuel"
        and L = L and reg = reg and loose = loose and packageJson = packageJson
        and packages = packages and edges = "manifestEdges packageJson"
        and allVersions = allVersions and ws = ws, OF Suc.IH]
    unfolding subscribeEdges_def by simp
qed

lemma completed_walk_is_interleaving:
  assumes "getRecursiveVersions L reg loose packageJson fuel packages allVersions = Done final"
  shows "(step L reg loose packageJson)\<^sup>*\<^sup>*
           (Running allVersions (subscribeEdges packageJson packages)) (Running final [])"
  using getRecursiveVersions_steps [where L = L and reg = reg and loose = loose
      and packageJson = packageJson and fuel = fuel and packages = packages
      and allVersions = allVersions and ws = "[]"]
    assms
  by simp

lemma failed_walk_is_interleaving:
  assumes "getRecursiveVersions L reg loose packageJson fuel packages allVersions = Failed e"
  shows "(step L reg loose packageJson)\<^sup>*\<^sup>*
           (Running allVersions (subscribeEdges packageJson packages)) (Stopped e)"
  using getRecursiveVersions_steps [where L = L and reg = reg and loose = loose
      and packageJson = packageJson and fuel = fuel and packages = packages
      and allVersions = allVersions and ws = "[]"]
    assms
  by simp

section \<open>Properties of the recursion\<close>

text \<open>
  C1, as the code has it. When the third stage records an update, the peer dependencies
  of the matched version become the \<open>packages\<close> of the recursive call, which walks the
  edges of the same root manifest again. So a package that the root manifest does not
  declare is never resolved: whatever the order in which the edges run, and in
  particular in a completed walk on cached documents, the accumulator's entry for it
  stays as it was.
\<close>

theorem recursion_walks_root_manifest:
  "(selectEdge L packages allVersions depName depVersion = Inr (Fetch version) \<and>
    reg depName = Inr npmPackageJson \<and>
    recordUpdate L loose allVersions version depName depVersion npmPackageJson
      = Inr (Recorded allVersions1 dependencies) \<longrightarrow>
      (\<exists>updateVersion match innerNpmPackageJson.
         getVersionFromNpmPackage L npmPackageJson version loose = Inr updateVersion \<and>
         truthy (semver_maxSatisfying L (map fst (npm_versions npmPackageJson)) updateVersion)
           = Some match \<and>
         map_of (npm_versions npmPackageJson) match = Some innerNpmPackageJson \<and>
         dependencies = peerDependenciesOf innerNpmPackageJson) \<and>
      resolveEdge L reg loose (getRecursiveVersions L reg loose packageJson fuel) packages
          allVersions (depName, depVersion)
        = getRecursiveVersions L reg loose packageJson fuel dependencies allVersions1 \<and>
      step L reg loose packageJson
        (Running allVersions (Task version depName depVersion # ws))
        (Running allVersions1 (subscribeEdges packageJson dependencies @ ws))) \<and>
   ((step L reg loose packageJson)\<^sup>*\<^sup>*
      (Running allVersions (subscribeEdges packageJson packages)) (Running allVersions' ws') \<and>
    n \<notin> fst ` set (manifestEdges packageJson) \<longrightarrow>
      map_of allVersions' n = map_of allVersions n) \<and>
   (getRecursiveVersions L reg loose packageJson fuel packages allVersions = Done final \<and>
    n \<notin> fst ` set (manifestEdges packageJson) \<longrightarrow>
      map_of final n = map_of allVersions n)"
proof (intro conjI impI)
  assume a: "selectEdge L packages allVersions depName depVersion = Inr (Fetch version) \<and>
    reg depName = Inr npmPackageJson \<and>
    recordUpdate L loose allVersions version depName depVersion npmPackageJson
      = Inr (Recorded allVersions1 dependencies)"
  then show "\<exists>updateVersion match innerNpmPackageJson.
         getVersionFromNpmPackage L npmPackageJson version loose = Inr updateVersion \<and>
         truthy (semver_maxSatisfying L (map fst (npm_versions npmPackageJson)) updateVersion)
           = Some match \<and>
         map_of (npm_versions npmPackageJson) match = Some innerNpmPackageJson \<and>
         dependencies = peerDependenciesOf innerNpmPackageJson"
    using recordUpdate_Recorded [of L loose allVersions version depName depVersion
        npmPackageJson allVersions1 dependencies]
    by blast
  from a show "resolveEdge L reg loose (getRecursiveVersions L reg loose packageJson fuel)
        packages allVersions (depName, depVersion)
      = getRecursiveVersions L reg loose packageJson fuel dependencies allVersions1"
    by (simp add: resolveEdge_def)
  from a have json: "reg depName = Inr npmPackageJson"
    and rec: "recordUpdate L loose allVersions version depName depVersion npmPackageJson
                = Inr (Recorded allVersions1 dependencies)"
    by simp_all
  from step.recorded [where reg = reg and depName = depName and packageJson = packageJson
      and ?ws1.0 = "[]" and ?ws2.0 = ws, OF json rec]
  show "step L reg loose packageJson
          (Running allVersions (Task version depName depVersion # ws))
          (Running allVersions1 (subscribeEdges packageJson dependencies @ ws))"
    by simp
next
  assume a: "(step L reg loose packageJson)\<^sup>*\<^sup>*
      (Running allVersions (subscribeEdges packageJson packages)) (Running allVersions' ws') \<and>
    n \<notin> fst ` set (manifestEdges packageJson)"
  then have run: "(step L reg loose packageJson)\<^sup>*\<^sup>*
      (Running allVersions (subscribeEdges packageJson packages)) (Running allVersions' ws')"
    by simp
  from steps_work [OF run refl refl subscribeEdges_manifestWork] a
  show "map_of allVersions' n = map_of allVersions n" by simp
next
  assume a: "getRecursiveVersions L reg loose packageJson fuel packages allVersions = Done final \<and>
    n \<notin> fst ` set (manifestEdges packageJson)"
  then have "(step L reg loose packageJson)\<^sup>*\<^sup>*
      (Running allVersions (subscribeEdges packageJson packages)) (Running final [])"
    using completed_walk_is_interleaving by blast
  from steps_work [OF this refl refl subscribeEdges_manifestWork] a
  show "map_of final n = map_of allVersions n" by simp
qed

theorem recursion_walks_root_manifest_witness:
  "resolveEdge semverFragment registryAB False
       (getRecursiveVersions semverFragment registryAB False manifestA (Suc (Suc 0)))
       [(''a'', ''latest'')] [] (''a'', ''^1.0.0'')
     = getRecursiveVersions semverFragment registryAB False manifestA (Suc (Suc 0))
         [(''b'', ''^2.0.0'')] [(''a'', ''1.2.0'')] \<and>
   map_of [(''a'', ''1.2.0'')] ''b'' = map_of [] ''b''"
proof -
  have h1: "selectEdge semverFragment [(''a'', ''latest'')] [] ''a'' ''^1.0.0''
              = Inr (Fetch ''latest'') \<and>
            registryAB ''a'' = Inr packageA \<and>
            recordUpdate semverFragment False [] ''latest'' ''a'' ''^1.0.0'' packageA
              = Inr (Recorded [(''a'', ''1.2.0'')] [(''b'', ''^2.0.0'')])"
    by code_simp
  have h2: "getRecursiveVersions semverFragment registryAB False manifestA (Suc (Suc 0))
              [(''a'', ''latest'')] [] = Done [(''a'', ''1.2.0'')] \<and>
            ''b'' \<notin> fst ` set (manifestEdges manifestA)"
    by code_simp
  show ?thesis
    using recursion_walks_root_manifest [where L = semverFragment and reg = registryAB
        and loose = False and packageJson = manifestA and fuel = "Suc (Suc 0)"
        and packages = "[(''a'', ''latest'')]" and allVersions = "[]"
        and depName = "''a''" and depVersion = "''^1.0.0''" and version = "''latest''"
        and npmPackageJson = packageA and ?allVersions1.0 = "[(''a'', ''1.2.0'')]"
        and dependencies = "[(''b'', ''^2.0.0'')]" and final = "[(''a'', ''1.2.0'')]"
        and n = "''b''"]
      h1 h2
    by blast
qed

text \<open>
  The scenario of the specification, \<open>a@latest\<close> on a manifest that declares only \<open>a\<close>:
  with less than two levels of recursion the walk is cut short, with two or more it
  completes with the entry of \<open>a\<close> alone.
\<close>

lemma run_manifestA:
  "getRecursiveVersions semverFragment registryAB False manifestA fuel
     (supportedPackagesMap [''a''] ''latest'') []
     = (if fuel < 2 then OutOfFuel else Done [(''a'', ''1.2.0'')])"
proof -
  have p: "supportedPackagesMap [''a''] ''latest'' = [(''a'', ''latest'')]" by code_simp
  have e: "manifestEdges manifestA = [(''a'', ''^1.0.0'')]" by code_simp
  have s1: "selectEdge semverFragment [(''a'', ''latest'')] [] ''a'' ''^1.0.0''
              = Inr (Fetch ''latest'')" by code_simp
  have rg: "registryAB ''a'' = Inr packageA" by code_simp
  have r1: "recordUpdate semverFragment False [] ''latest'' ''a'' ''^1.0.0'' packageA
              = Inr (Recorded [(''a'', ''1.2.0'')] [(''b'', ''^2.0.0'')])" by code_simp
  have s2: "selectEdge semverFragment [(''b'', ''^2.0.0'')] [(''a'', ''1.2.0'')] ''a'' ''^1.0.0''
              = Inr Skip" by code_simp
  show ?thesis
  proof (cases fuel)
    case 0
    then show ?thesis by simp
  next
    case (Suc m)
    show ?thesis
    proof (cases m)
      case 0
      then show ?thesis using Suc by (simp add: p e s1 rg r1 resolveEdge_def)
    next
      case (Suc k)
      then show ?thesis using \<open>fuel = Suc m\<close> by (simp add: p e s1 rg r1 s2 resolveEdge_def)
    qed
  qed
qed

text \<open>
  C1 as stated fails: \<open>b\<close> is a peer dependency of the version selected for the anchor
  \<open>a\<close>, the root manifest does not declare it, and no run resolves it.
\<close>

theorem undeclared_peer_counterexample:
  "map_of (peerDependenciesOf (peers [(''b'', ''^2.0.0'')])) ''b'' = Some ''^2.0.0'' \<and>
   \<not> (\<exists>fuel allVersions.
         getRecursiveVersions semverFragment registryAB False manifestA fuel
           (supportedPackagesMap [''a''] ''latest'') [] = Done allVersions \<and>
         map_of allVersions ''b'' \<noteq> None)"
proof (intro conjI notI)
  show "map_of (peerDependenciesOf (peers [(''b'', ''^2.0.0'')])) ''b'' = Some ''^2.0.0''"
    by code_simp
next
  assume "\<exists>fuel allVersions.
         getRecursiveVersions semverFragment registryAB False manifestA fuel
           (supportedPackagesMap [''a''] ''latest'') [] = Done allVersions \<and>
         map_of allVersions ''b'' \<noteq> None"
  then obtain fuel allVersions where
    run: "getRecursiveVersions semverFragment registryAB False manifestA fuel
            (supportedPackagesMap [''a''] ''latest'') [] = Done allVersions"
    and b: "map_of allVersions ''b'' \<noteq> None"
    by (elim exE conjE)
  from run have "allVersions = [(''a'', ''1.2.0'')]"
    unfolding run_manifestA by (simp split: if_splits)
  with b show False by simp
qed

text \<open>
  C2, as the code has it: the run of the scenario produces \<open>{a: "1.2.0"}\<close>. The tag
  resolves to the bare version because \<open>loose\<close> is off, and \<open>b\<close> is not resolved because
  the root manifest does not declare it.
\<close>

theorem scenario_a_latest:
  "getRecursiveVersions semverFragment registryAB False manifestA (Suc (Suc fuel))
     (supportedPackagesMap [''a''] ''latest'') [] = Done [(''a'', ''1.2.0'')]"
  by (subst run_manifestA) simp

text \<open>C2 as stated fails: no run of the scenario ends with \<open>{a: "^1.2.0", b: "^2.5.0"}\<close>.\<close>

theorem scenario_a_latest_counterexample:
  "\<not> (\<exists>fuel allVersions.
         getRecursiveVersions semverFragment registryAB False manifestA fuel
           (supportedPackagesMap [''a''] ''latest'') [] = Done allVersions \<and>
         map_of allVersions = [''a'' \<mapsto> ''^1.2.0'', ''b'' \<mapsto> ''^2.5.0''])"
proof
  assume "\<exists>fuel allVersions.
         getRecursiveVersions semverFragment registryAB False manifestA fuel
           (supportedPackagesMap [''a''] ''latest'') [] = Done allVersions \<and>
         map_of allVersions = [''a'' \<mapsto> ''^1.2.0'', ''b'' \<mapsto> ''^2.5.0'']"
  then obtain fuel allVersions where
    run: "getRecursiveVersions semverFragment registryAB False manifestA fuel
            (supportedPackagesMap [''a''] ''latest'') [] = Done allVersions"
    and m: "map_of allVersions = [''a'' \<mapsto> ''^1.2.0'', ''b'' \<mapsto> ''^2.5.0'']"
    by (elim exE conjE)
  from run have "allVersions = [(''a'', ''1.2.0'')]"
    unfolding run_manifestA by (simp split: if_splits)
  with m have "map_of [(''a'', ''1.2.0'')] = [''a'' \<mapsto> ''^1.2.0'', ''b'' \<mapsto> ''^2.5.0'']"
    by simp
  then have "map_of [(''a'', ''1.2.0'')] ''b'' = [''a'' \<mapsto> ''^1.2.0'', ''b'' \<mapsto> ''^2.5.0''] ''b''"
    by (rule arg_cong)
  then show False by simp
qed

section \<open>The semver fragment has the library properties\<close>















section \<open>No silent downgrade\<close>










section \<open>Termination\<close>

lemma selectEdge_Fetch:
  "selectEdge L packages allVersions depName depVersion = Inr (Fetch version)
   \<Longrightarrow> truthy (map_of packages depName) = Some version"
  by (auto simp: selectEdge_def split: option.splits if_splits bool.splits)

lemma resolveEdge_OutOfFuel:
  assumes "resolveEdge L reg loose recurse packages allVersions (depName, depVersion) = OutOfFuel"
  shows "\<exists>version npmPackageJson match innerNpmPackageJson acc.
           (depName, version) \<in> set packages \<and>
           reg depName = Inr npmPackageJson \<and>
           (match, innerNpmPackageJson) \<in> set (npm_versions npmPackageJson) \<and>
           recurse (peerDependenciesOf innerNpmPackageJson) acc = OutOfFuel"
proof (cases "selectEdge L packages allVersions depName depVersion")
  case (Inl e)
  then show ?thesis using assms by (simp add: resolveEdge_def)
next
  case (Inr choice)
  show ?thesis
  proof (cases choice)
    case Skip
    then show ?thesis using assms Inr by (simp add: resolveEdge_def)
  next
    case (Narrowed acc1)
    then show ?thesis using assms Inr by (simp add: resolveEdge_def)
  next
    case (Fetch version)
    then have "truthy (map_of packages depName) = Some version"
      using Inr selectEdge_Fetch by blast
    then have target: "(depName, version) \<in> set packages"
      by (simp add: truthy_Some map_of_SomeD)
    show ?thesis
    proof (cases "reg depName")
      case (Inl err)
      then show ?thesis using assms Inr Fetch by (simp add: resolveEdge_def)
    next
      case json: (Inr npmPackageJson)
      show ?thesis
      proof (cases "recordUpdate L loose allVersions version depName depVersion npmPackageJson")
        case (Inl e)
        then show ?thesis using assms Inr Fetch json by (simp add: resolveEdge_def)
      next
        case r: (Inr result)
        show ?thesis
        proof (cases result)
          case Dropped
          then show ?thesis using assms Inr Fetch json r by (simp add: resolveEdge_def)
        next
          case (Recorded acc1 dependencies)
          then have run: "recurse dependencies acc1 = OutOfFuel"
            using assms Inr Fetch json r by (simp add: resolveEdge_def)
          from recordUpdate_Recorded r Recorded obtain match innerNpmPackageJson where
            m: "map_of (npm_versions npmPackageJson) match = Some innerNpmPackageJson"
            and d: "dependencies = peerDependenciesOf innerNpmPackageJson"
            by blast
          from m have "(match, innerNpmPackageJson) \<in> set (npm_versions npmPackageJson)"
            by (rule map_of_SomeD)
          with target json run d show ?thesis by blast
        qed
      qed
    qed
  qed
qed

lemma walkEdges_OutOfFuel:
  "walkEdges (resolveEdge L reg loose recurse packages) edges allVersions = OutOfFuel
   \<Longrightarrow> \<exists>depName version npmPackageJson match innerNpmPackageJson acc.
         (depName, version) \<in> set packages \<and>
         reg depName = Inr npmPackageJson \<and>
         (match, innerNpmPackageJson) \<in> set (npm_versions npmPackageJson) \<and>
         recurse (peerDependenciesOf innerNpmPackageJson) acc = OutOfFuel"
proof (induction edges arbitrary: allVersions)
  case Nil
  then show ?case by simp
next
  case (Cons edge edges)
  obtain depName depVersion where e: "edge = (depName, depVersion)" by (cases edge)
  show ?case
  proof (cases "resolveEdge L reg loose recurse packages allVersions (depName, depVersion)")
    case (Done acc1)
    then show ?thesis using Cons e by simp
  next
    case (Failed err)
    then show ?thesis using Cons.prems e by simp
  next
    case OutOfFuel
    then show ?thesis using resolveEdge_OutOfFuel by blast
  qed
qed

lemma getRecursiveVersions_returns:
  assumes "peerRanked reg rank"
    and "\<forall>(depName, version) \<in> set packages. rank depName < fuel"
  shows "getRecursiveVersions L reg loose packageJson (Suc fuel) packages allVersions
           \<noteq> OutOfFuel"
  using assms(2)
proof (induction fuel arbitrary: packages allVersions)
  case 0
  show ?case
  proof
    assume "getRecursiveVersions L reg loose packageJson (Suc 0) packages allVersions = OutOfFuel"
    then have "walkEdges
                 (resolveEdge L reg loose (getRecursiveVersions L reg loose packageJson 0)
                    packages)
                 (manifestEdges packageJson) allVersions = OutOfFuel"
      by simp
    from walkEdges_OutOfFuel [OF this] obtain depName version where
      "(depName, version) \<in> set packages" by blast
    with "0.prems" show False by auto
  qed
next
  case (Suc fuel)
  show ?case
  proof
    assume "getRecursiveVersions L reg loose packageJson (Suc (Suc fuel)) packages allVersions
              = OutOfFuel"
    then have "walkEdges
                 (resolveEdge L reg loose
                    (getRecursiveVersions L reg loose packageJson (Suc fuel)) packages)
                 (manifestEdges packageJson) allVersions = OutOfFuel"
      by simp
    from walkEdges_OutOfFuel [OF this]
    obtain depName version npmPackageJson match innerNpmPackageJson acc where
      target: "(depName, version) \<in> set packages"
      and json: "reg depName = Inr npmPackageJson"
      and inner: "(match, innerNpmPackageJson) \<in> set (npm_versions npmPackageJson)"
      and out: "getRecursiveVersions L reg loose packageJson (Suc fuel)
                  (peerDependenciesOf innerNpmPackageJson) acc = OutOfFuel"
      by blast
    from target Suc.prems have r: "rank depName < Suc fuel" by auto
    have "\<forall>(peer, selector) \<in> set (peerDependenciesOf innerNpmPackageJson). rank peer < fuel"
    proof (clarify)
      fix peer selector
      assume "(peer, selector) \<in> set (peerDependenciesOf innerNpmPackageJson)"
      with assms(1) json inner have "rank peer < rank depName"
        unfolding peerRanked_def by blast
      with r show "rank peer < fuel" by simp
    qed
    from Suc.IH [OF this] out show False by blast
  qed
qed

text \<open>On a ranked registry every step lowers the weight of the configuration.\<close>

lemma weight_removed:
  "(add_mset 0 (image_mset f (mset (ws1 @ ws2))),
    add_mset 0 (image_mset f (mset (ws1 @ w # ws2)))) \<in> mult {(x, y :: nat). x < y}"
  by (rule subset_implies_mult) simp

lemma weight_replaced:
  assumes "\<forall>k \<in> set ks. f k < f w"
  shows "(add_mset 0 (image_mset f (mset (ws1 @ ks @ ws2))),
          add_mset 0 (image_mset f (mset (ws1 @ w # ws2)))) \<in> mult {(x, y :: nat). x < y}"
proof -
  let ?I = "add_mset 0 (image_mset f (mset ws1) + image_mset f (mset ws2))"
  have "(?I + image_mset f (mset ks), ?I + {#f w#}) \<in> mult {(x, y). x < y}"
    by (rule one_step_implies_mult) (use assms in auto)
  then show ?thesis by (simp add: ac_simps)
qed

lemma step_lowers_weight:
  assumes ranked: "peerRanked reg rank"
    and st: "step L reg loose packageJson c c'"
  shows "(configWeight rank c', configWeight rank c) \<in> mult {(x, y). x < y}"
  using st
proof (cases rule: step.cases)
  case (selectThrows packages allVersions depName depVersion e ws1 ws2)
  show ?thesis
    unfolding selectThrows(1,2) configWeight.simps by (rule subset_implies_mult) simp
next
  case (skipped packages allVersions depName depVersion ws1 ws2)
  show ?thesis
    unfolding skipped(1,2) configWeight.simps by (rule weight_removed)
next
  case (narrowed packages allVersions depName depVersion allVersions' ws1 ws2)
  show ?thesis
    unfolding narrowed(1,2) configWeight.simps by (rule weight_removed)
next
  case (fetching packages allVersions depName depVersion version ws1 ws2)
  from fetching(3) have "truthy (map_of packages depName) = Some version"
    by (rule selectEdge_Fetch)
  then have "\<forall>k \<in> set [Task version depName depVersion].
               workWeight rank k < workWeight rank (Edge packages depName depVersion)"
    by simp
  from weight_replaced [OF this, of ws1 ws2] show ?thesis
    unfolding fetching(1,2) configWeight.simps by simp
next
  case (fetchFails depName err allVersions ws1 version depVersion ws2)
  show ?thesis
    unfolding fetchFails(1,2) configWeight.simps by (rule subset_implies_mult) simp
next
  case (recordThrows depName npmPackageJson allVersions version depVersion e ws1 ws2)
  show ?thesis
    unfolding recordThrows(1,2) configWeight.simps by (rule subset_implies_mult) simp
next
  case (dropped depName npmPackageJson allVersions version depVersion ws1 ws2)
  show ?thesis
    unfolding dropped(1,2) configWeight.simps by (rule weight_removed)
next
  case (recorded depName npmPackageJson allVersions version depVersion allVersions'
      dependencies ws1 ws2)
  from recordUpdate_Recorded [OF recorded(4)] obtain match innerNpmPackageJson where
    m: "map_of (npm_versions npmPackageJson) match = Some innerNpmPackageJson"
    and d: "dependencies = peerDependenciesOf innerNpmPackageJson"
    by blast
  from m have inner: "(match, innerNpmPackageJson) \<in> set (npm_versions npmPackageJson)"
    by (rule map_of_SomeD)
  have "\<forall>k \<in> set (subscribeEdges packageJson dependencies).
          workWeight rank k < workWeight rank (Task version depName depVersion)"
  proof
    fix k assume "k \<in> set (subscribeEdges packageJson dependencies)"
    then obtain peer peerVersion where k: "k = Edge dependencies peer peerVersion"
      by (auto simp: subscribeEdges_def)
    show "workWeight rank k < workWeight rank (Task version depName depVersion)"
    proof (cases "truthy (map_of dependencies peer)")
      case None
      then show ?thesis using k by simp
    next
      case (Some selector)
      then have "(peer, selector) \<in> set (peerDependenciesOf innerNpmPackageJson)"
        using d by (simp add: truthy_Some map_of_SomeD)
      with ranked recorded(3) inner have "rank peer < rank depName"
        unfolding peerRanked_def by blast
      then show ?thesis using k Some by simp
    qed
  qed
  from weight_replaced [OF this, of ws1 ws2] show ?thesis
    unfolding recorded(1,2) configWeight.simps .
qed

text \<open>
  C8, as the code has it. On a ranked registry snapshot the walk terminates, whatever
  the manifest, the targets, the accumulator and the libraries: the walk on cached
  documents returns (when every target has a rank below \<open>fuel\<close>, a walk that is allowed
  one more nested call than that completes or fails, and is never cut short), and there
  is no infinite sequence of steps in any order.
\<close>

theorem walk_terminates_when_ranked:
  assumes "peerRanked reg rank"
  shows "((\<forall>(depName, version) \<in> set packages. rank depName < fuel) \<longrightarrow>
            getRecursiveVersions L reg loose packageJson (Suc fuel) packages allVersions
              \<noteq> OutOfFuel) \<and>
         wf {(c', c). step L reg loose packageJson c c'}"
proof
  show "(\<forall>(depName, version) \<in> set packages. rank depName < fuel) \<longrightarrow>
          getRecursiveVersions L reg loose packageJson (Suc fuel) packages allVersions
            \<noteq> OutOfFuel"
    using getRecursiveVersions_returns [OF assms] by blast
  have "wf (inv_image (mult {(x, y :: nat). x < y}) (configWeight rank))"
    by (intro wf_inv_image wf_mult) (rule wf_less)
  moreover have "{(c', c). step L reg loose packageJson c c'}
                   \<subseteq> inv_image (mult {(x, y). x < y}) (configWeight rank)"
    using step_lowers_weight [OF assms] by (auto simp: inv_image_def)
  ultimately show "wf {(c', c). step L reg loose packageJson c c'}"
    by (rule wf_subset)
qed

text \<open>The registry of \<open>a\<close> and \<open>b\<close> is ranked: \<open>a\<close> above \<open>b\<close>.\<close>

theorem walk_terminates_when_ranked_witness:
  "getRecursiveVersions semverFragment registryAB False manifestA (Suc (Suc (Suc 0)))
     [(''a'', ''latest'')] [] \<noteq> OutOfFuel"
proof -
  define rank :: "string \<Rightarrow> nat" where "rank = (\<lambda>n. if n = ''a'' then 1 else 0)"
  have ranked: "peerRanked registryAB rank"
    unfolding peerRanked_def
  proof (intro allI impI)
    fix depName npmPackageJson version innerNpmPackageJson peer selector
    assume reg: "registryAB depName = Inr npmPackageJson"
      and v: "(version, innerNpmPackageJson) \<in> set (npm_versions npmPackageJson)"
      and p: "(peer, selector) \<in> set (peerDependenciesOf innerNpmPackageJson)"
    consider "depName = ''a''" "npmPackageJson = packageA"
      | "depName = ''b''" "npmPackageJson = packageB"
      using reg by (auto simp: registryAB_def split: if_splits)
    then show "rank peer < rank depName"
    proof cases
      case 1
      with v p have "peer = ''b''"
        by (auto simp: packageA_def npmPackage_def noPeers_def peers_def peerDependenciesOf_def)
      with 1 show ?thesis by (simp add: rank_def)
    next
      case 2
      with v p show ?thesis
        by (auto simp: packageB_def npmPackage_def noPeers_def peerDependenciesOf_def)
    qed
  qed
  have targets: "\<forall>(depName, version) \<in> set [(''a'', ''latest'')]. rank depName < Suc (Suc 0)"
    by (simp add: rank_def)
  show ?thesis
    using walk_terminates_when_ranked [OF ranked, where packages = "[(''a'', ''latest'')]"
        and fuel = "Suc (Suc 0)"] targets
    by blast
qed

text \<open>
  With \<open>x\<close> and \<open>y\<close> as peers of each other and both declared at \<open>^1.0.0\<close>, neither
  recorded constraint intersects its declared one, so each package is fetched and
  expanded again whenever it is reached: the two calls below alternate for ever.
\<close>

lemma run_XY_loop:
  "getRecursiveVersions semverFragment registryXY False manifestXY fuel
     [(''x'', ''^2.0.0'')] [(''x'', ''2.0.0''), (''y'', ''^2.0.0'')] = OutOfFuel \<and>
   getRecursiveVersions semverFragment registryXY False manifestXY fuel
     [(''y'', ''^2.0.0'')] [(''x'', ''2.0.0''), (''y'', ''^2.0.0'')] = OutOfFuel"
proof (induction fuel)
  case 0
  show ?case by simp
next
  case (Suc fuel)
  have e: "manifestEdges manifestXY = [(''x'', ''^1.0.0''), (''y'', ''^1.0.0'')]" by code_simp
  have rx: "registryXY ''x'' = Inr packageX" by code_simp
  have ry: "registryXY ''y'' = Inr packageY" by code_simp
  have sx: "selectEdge semverFragment [(''x'', ''^2.0.0'')]
              [(''x'', ''2.0.0''), (''y'', ''^2.0.0'')] ''x'' ''^1.0.0'' = Inr (Fetch ''^2.0.0'')"
    by code_simp
  have ux: "recordUpdate semverFragment False [(''x'', ''2.0.0''), (''y'', ''^2.0.0'')]
              ''^2.0.0'' ''x'' ''^1.0.0'' packageX
              = Inr (Recorded [(''x'', ''2.0.0''), (''y'', ''^2.0.0'')] [(''y'', ''^2.0.0'')])"
    by code_simp
  have sy1: "selectEdge semverFragment [(''y'', ''^2.0.0'')]
               [(''x'', ''2.0.0''), (''y'', ''^2.0.0'')] ''x'' ''^1.0.0'' = Inr Skip"
    by code_simp
  have sy2: "selectEdge semverFragment [(''y'', ''^2.0.0'')]
               [(''x'', ''2.0.0''), (''y'', ''^2.0.0'')] ''y'' ''^1.0.0'' = Inr (Fetch ''^2.0.0'')"
    by code_simp
  have uy: "recordUpdate semverFragment False [(''x'', ''2.0.0''), (''y'', ''^2.0.0'')]
              ''^2.0.0'' ''y'' ''^1.0.0'' packageY
              = Inr (Recorded [(''x'', ''2.0.0''), (''y'', ''^2.0.0'')] [(''x'', ''^2.0.0'')])"
    by code_simp
  from Suc show ?case
    by (simp add: e rx ry sx ux sy1 sy2 uy resolveEdge_def)
qed

text \<open>
  C8 as stated fails: the walk for the anchor \<open>x\<close> at \<open>latest\<close> never returns, whatever
  the number of nested calls it is allowed.
\<close>

theorem cyclic_peers_counterexample:
  "\<forall>fuel. getRecursiveVersions semverFragment registryXY False manifestXY fuel
     (supportedPackagesMap [''x''] ''latest'') [] = OutOfFuel"
proof
  fix fuel
  have p: "supportedPackagesMap [''x''] ''latest'' = [(''x'', ''latest'')]" by code_simp
  have e: "manifestEdges manifestXY = [(''x'', ''^1.0.0''), (''y'', ''^1.0.0'')]" by code_simp
  have rx: "registryXY ''x'' = Inr packageX" by code_simp
  have ry: "registryXY ''y'' = Inr packageY" by code_simp
  have s0: "selectEdge semverFragment [(''x'', ''latest'')] [] ''x'' ''^1.0.0''
              = Inr (Fetch ''latest'')" by code_simp
  have u0: "recordUpdate semverFragment False [] ''latest'' ''x'' ''^1.0.0'' packageX
              = Inr (Recorded [(''x'', ''2.0.0'')] [(''y'', ''^2.0.0'')])" by code_simp
  have s1: "selectEdge semverFragment [(''y'', ''^2.0.0'')] [(''x'', ''2.0.0'')] ''x'' ''^1.0.0''
              = Inr Skip" by code_simp
  have s2: "selectEdge semverFragment [(''y'', ''^2.0.0'')] [(''x'', ''2.0.0'')] ''y'' ''^1.0.0''
              = Inr (Fetch ''^2.0.0'')" by code_simp
  have u1: "recordUpdate semverFragment False [(''x'', ''2.0.0'')] ''^2.0.0'' ''y'' ''^1.0.0''
              packageY
              = Inr (Recorded [(''x'', ''2.0.0''), (''y'', ''^2.0.0'')] [(''x'', ''^2.0.0'')])"
    by code_simp
  show "getRecursiveVersions semverFragment registryXY False manifestXY fuel
          (supportedPackagesMap [''x''] ''latest'') [] = OutOfFuel"
  proof (cases fuel)
    case 0
    then show ?thesis by simp
  next
    case (Suc m)
    show ?thesis
    proof (cases m)
      case 0
      then show ?thesis using Suc by (simp add: p e rx s0 u0 resolveEdge_def)
    next
      case (Suc k)
      then show ?thesis
        using \<open>fuel = Suc m\<close> run_XY_loop [of k]
        by (simp add: p e rx ry s0 u0 s1 s2 u1 resolveEdge_def)
    qed
  qed
qed

section \<open>The manifest is written only after a completed resolution\<close>



section \<open>Properties of the registry client\<close>





lemma settle_cache [simp]:
  "npmPackageJsonCache (settle request result st) = npmPackageJsonCache st"
  "requests (settle request result st) = requests st"
  "length (subjects (settle request result st)) = length (subjects st)"
  by (simp_all add: settle_def)













end
